theory Spec2Isabelle
  imports Main "HOL-Library.Multiset"
begin

section \<open>MemoryLane: the in-memory Data Access Layer\<close>

text \<open>
  The development follows \<^verbatim>\<open>MemStorage\<close> (the storage class), the HTTP handlers of
  \<^verbatim>\<open>registerRoutes\<close> that call it, and \<^verbatim>\<open>getCalendarDays\<close> of the date utilities.

  Identifiers are JavaScript numbers that only ever hold integers here (counters that start
  at 1 and are incremented, and \<^verbatim>\<open>parseInt\<close> results); they are modelled as \<open>int\<close>.
  Timestamps (\<^verbatim>\<open>Date\<close> values stored in records) are milliseconds as \<open>int\<close>; the clock
  reading \<^verbatim>\<open>new Date()\<close> is passed to each operation as the argument \<open>now\<close>.
\<close>

subsection \<open>JavaScript \<^verbatim>\<open>Map<number, V>\<close>\<close>

text \<open>
  A \<^verbatim>\<open>Map\<close> iterates in insertion order, \<^verbatim>\<open>set\<close> on a present key replaces the value
  in place and on an absent key appends, \<^verbatim>\<open>delete\<close> removes the entry. It is modelled as
  an association list in iteration order.
\<close>

type_synonym 'v jsmap = "(int \<times> 'v) list"

definition js_get :: "'v jsmap \<Rightarrow> int \<Rightarrow> 'v option" where
  "js_get m k = map_of m k"

fun js_set :: "int \<Rightarrow> 'v \<Rightarrow> 'v jsmap \<Rightarrow> 'v jsmap" where
  "js_set k v [] = [(k, v)]"
| "js_set k v (p # ps) = (if fst p = k then (k, v) # ps else p # js_set k v ps)"

definition js_delete :: "int \<Rightarrow> 'v jsmap \<Rightarrow> 'v jsmap" where
  "js_delete k m = filter (\<lambda>p. fst p \<noteq> k) m"

definition js_values :: "'v jsmap \<Rightarrow> 'v list" where
  "js_values m = map snd m"

definition js_keys :: "'v jsmap \<Rightarrow> int list" where
  "js_keys m = map fst m"

text \<open>\<^verbatim>\<open>{ ...old, ...partial }\<close>: a field of the partial object overrides when present.\<close>

definition override :: "'a \<Rightarrow> 'a option \<Rightarrow> 'a" where
  "override old new = (case new of None \<Rightarrow> old | Some v \<Rightarrow> v)"

subsection \<open>Entities (shared/schema.ts)\<close>

record User =
  user_id :: int
  user_username :: string
  user_password :: string
  user_displayName :: "string option"
  user_bio :: "string option"
  user_avatar :: "string option"
  user_createdAt :: int

record InsertUser =
  iu_username :: string
  iu_password :: string
  iu_displayName :: "string option"
  iu_bio :: "string option"
  iu_avatar :: "string option"

record PartialUser =
  pu_id :: "int option"
  pu_username :: "string option"
  pu_password :: "string option"
  pu_displayName :: "string option option"
  pu_bio :: "string option option"
  pu_avatar :: "string option option"
  pu_createdAt :: "int option"

text \<open>
  \<^verbatim>\<open>isPrivate\<close> has a schema default, so an inserted memory may leave it undefined; the
  storage only ever tests its truthiness, and undefined is read as \<open>False\<close>.
\<close>

record Memory =
  memory_id :: int
  memory_userId :: int
  memory_title :: string
  memory_content :: string
  memory_images :: "string list option"
  memory_date :: int
  memory_location :: "string option"
  memory_isPrivate :: bool
  memory_createdAt :: int

record InsertMemory =
  im_userId :: int
  im_title :: string
  im_content :: string
  im_images :: "string list option"
  im_date :: int
  im_location :: "string option"
  im_isPrivate :: bool

record PartialMemory =
  pm_id :: "int option"
  pm_userId :: "int option"
  pm_title :: "string option"
  pm_content :: "string option"
  pm_images :: "string list option option"
  pm_date :: "int option"
  pm_location :: "string option option"
  pm_isPrivate :: "bool option"
  pm_createdAt :: "int option"

record Friend =
  friend_id :: int
  friend_userId :: int
  friend_friendId :: int
  friend_status :: string
  friend_createdAt :: int

record Group =
  group_id :: int
  group_name :: string
  group_description :: "string option"
  group_createdBy :: int
  group_avatar :: "string option"
  group_createdAt :: int

record InsertGroup =
  ig_name :: string
  ig_description :: "string option"
  ig_createdBy :: int
  ig_avatar :: "string option"

record PartialGroup =
  pg_id :: "int option"
  pg_name :: "string option"
  pg_description :: "string option option"
  pg_createdBy :: "int option"
  pg_avatar :: "string option option"
  pg_createdAt :: "int option"

record GroupMember =
  member_id :: int
  member_groupId :: int
  member_userId :: int
  member_role :: string
  member_joinedAt :: int

record InsertGroupMember =
  igm_groupId :: int
  igm_userId :: int
  igm_role :: string

record Notification =
  notification_id :: int
  notification_userId :: int
  notification_type :: string
  notification_content :: string
  notification_read :: bool
  notification_relatedId :: "int option"
  notification_createdAt :: int

record InsertNotification =
  in_userId :: int
  in_type :: string
  in_content :: string
  in_read :: bool
  in_relatedId :: "int option"

record Comment =
  comment_id :: int
  comment_memoryId :: int
  comment_userId :: int
  comment_content :: string
  comment_createdAt :: int

record InsertComment =
  ic_memoryId :: int
  ic_userId :: int
  ic_content :: string

subsection \<open>The store\<close>

record MemStorage =
  users :: "User jsmap"
  memories :: "Memory jsmap"
  friends :: "Friend jsmap"
  groups :: "Group jsmap"
  groupMembers :: "GroupMember jsmap"
  notifications :: "Notification jsmap"
  comments :: "Comment jsmap"
  userIdCounter :: int
  memoryIdCounter :: int
  friendIdCounter :: int
  groupIdCounter :: int
  groupMemberIdCounter :: int
  notificationIdCounter :: int
  commentIdCounter :: int

text \<open>Every \<^verbatim>\<open>throw new Error(msg)\<close> of the storage is a value \<open>Error msg\<close>.\<close>

datatype error = Error string

text \<open>The constructor.\<close>

definition newMemStorage :: MemStorage where
  "newMemStorage = \<lparr> users = [], memories = [], friends = [], groups = [],
     groupMembers = [], notifications = [], comments = [],
     userIdCounter = 1, memoryIdCounter = 1, friendIdCounter = 1, groupIdCounter = 1,
     groupMemberIdCounter = 1, notificationIdCounter = 1, commentIdCounter = 1 \<rparr>"

subsection \<open>User methods\<close>

definition getUser :: "MemStorage \<Rightarrow> int \<Rightarrow> User option" where
  "getUser s i = js_get (users s) i"

definition getUserByUsername :: "MemStorage \<Rightarrow> string \<Rightarrow> User option" where
  "getUserByUsername s username =
     find (\<lambda>user. user_username user = username) (js_values (users s))"

definition createUser :: "MemStorage \<Rightarrow> int \<Rightarrow> InsertUser \<Rightarrow> MemStorage \<times> User" where
  "createUser s now userData =
     (let i = userIdCounter s;
          user = \<lparr> user_id = i, user_username = iu_username userData,
                   user_password = iu_password userData,
                   user_displayName = iu_displayName userData, user_bio = iu_bio userData,
                   user_avatar = iu_avatar userData, user_createdAt = now \<rparr>
      in (s\<lparr> userIdCounter := i + 1, users := js_set i user (users s) \<rparr>, user))"

definition merge_user :: "User \<Rightarrow> PartialUser \<Rightarrow> User" where
  "merge_user u p = \<lparr> user_id = override (user_id u) (pu_id p),
     user_username = override (user_username u) (pu_username p),
     user_password = override (user_password u) (pu_password p),
     user_displayName = override (user_displayName u) (pu_displayName p),
     user_bio = override (user_bio u) (pu_bio p),
     user_avatar = override (user_avatar u) (pu_avatar p),
     user_createdAt = override (user_createdAt u) (pu_createdAt p) \<rparr>"

definition updateUser :: "MemStorage \<Rightarrow> int \<Rightarrow> PartialUser \<Rightarrow> error + MemStorage \<times> User" where
  "updateUser s i userData =
     (case getUser s i of
        None \<Rightarrow> Inl (Error ''User not found'')
      | Some user \<Rightarrow>
          (let updatedUser = merge_user user userData
           in Inr (s\<lparr> users := js_set i updatedUser (users s) \<rparr>, updatedUser)))"

definition getAllUsers :: "MemStorage \<Rightarrow> User list" where
  "getAllUsers s = js_values (users s)"

subsection \<open>Memory methods\<close>

text \<open>
  \<^verbatim>\<open>.sort((a, b) => new Date(b.date).getTime() - new Date(a.date).getTime())\<close>:
  the array sort is stable, and the comparator orders by descending date.
\<close>

definition sort_newest_first :: "Memory list \<Rightarrow> Memory list" where
  "sort_newest_first ms = sort_key (\<lambda>m. - memory_date m) ms"

definition getMemory :: "MemStorage \<Rightarrow> int \<Rightarrow> Memory option" where
  "getMemory s i = js_get (memories s) i"

definition createMemory :: "MemStorage \<Rightarrow> int \<Rightarrow> InsertMemory \<Rightarrow> MemStorage \<times> Memory" where
  "createMemory s now memoryData =
     (let i = memoryIdCounter s;
          memory = \<lparr> memory_id = i, memory_userId = im_userId memoryData,
                     memory_title = im_title memoryData, memory_content = im_content memoryData,
                     memory_images = im_images memoryData, memory_date = im_date memoryData,
                     memory_location = im_location memoryData,
                     memory_isPrivate = im_isPrivate memoryData, memory_createdAt = now \<rparr>
      in (s\<lparr> memoryIdCounter := i + 1, memories := js_set i memory (memories s) \<rparr>, memory))"

definition merge_memory :: "Memory \<Rightarrow> PartialMemory \<Rightarrow> Memory" where
  "merge_memory m p = \<lparr> memory_id = override (memory_id m) (pm_id p),
     memory_userId = override (memory_userId m) (pm_userId p),
     memory_title = override (memory_title m) (pm_title p),
     memory_content = override (memory_content m) (pm_content p),
     memory_images = override (memory_images m) (pm_images p),
     memory_date = override (memory_date m) (pm_date p),
     memory_location = override (memory_location m) (pm_location p),
     memory_isPrivate = override (memory_isPrivate m) (pm_isPrivate p),
     memory_createdAt = override (memory_createdAt m) (pm_createdAt p) \<rparr>"

definition updateMemory :: "MemStorage \<Rightarrow> int \<Rightarrow> PartialMemory \<Rightarrow> error + MemStorage \<times> Memory" where
  "updateMemory s i memoryData =
     (case getMemory s i of
        None \<Rightarrow> Inl (Error ''Memory not found'')
      | Some memory \<Rightarrow>
          (let updatedMemory = merge_memory memory memoryData
           in Inr (s\<lparr> memories := js_set i updatedMemory (memories s) \<rparr>, updatedMemory)))"

text \<open>The loop \<^verbatim>\<open>for (const x of toDelete) map.delete(x.id)\<close>.\<close>

definition delete_all :: "int list \<Rightarrow> 'v jsmap \<Rightarrow> 'v jsmap" where
  "delete_all ks m = fold js_delete ks m"

definition deleteMemory :: "MemStorage \<Rightarrow> int \<Rightarrow> MemStorage" where
  "deleteMemory s i =
     (let s1 = s\<lparr> memories := js_delete i (memories s) \<rparr>;
          commentsToDelete = filter (\<lambda>comment. comment_memoryId comment = i)
                               (js_values (comments s1))
      in s1\<lparr> comments := delete_all (map comment_id commentsToDelete) (comments s1) \<rparr>)"

definition getUserMemories :: "MemStorage \<Rightarrow> int \<Rightarrow> Memory list" where
  "getUserMemories s userId =
     sort_newest_first (filter (\<lambda>memory. memory_userId memory = userId)
                          (js_values (memories s)))"

definition getUserPublicMemories :: "MemStorage \<Rightarrow> int \<Rightarrow> Memory list" where
  "getUserPublicMemories s userId =
     sort_newest_first (filter (\<lambda>memory. memory_userId memory = userId \<and> \<not> memory_isPrivate memory)
                          (js_values (memories s)))"

subsection \<open>Friend methods\<close>


definition getFriendRequest :: "MemStorage \<Rightarrow> int \<Rightarrow> Friend option" where
  "getFriendRequest s i = js_get (friends s) i"

subsection \<open>Group and group member queries\<close>

definition getGroup :: "MemStorage \<Rightarrow> int \<Rightarrow> Group option" where
  "getGroup s i = js_get (groups s) i"

definition getAllGroups :: "MemStorage \<Rightarrow> Group list" where
  "getAllGroups s = js_values (groups s)"


definition getGroupMembers :: "MemStorage \<Rightarrow> int \<Rightarrow> GroupMember list" where
  "getGroupMembers s groupId =
     filter (\<lambda>member. member_groupId member = groupId) (js_values (groupMembers s))"

definition getGroupMembership :: "MemStorage \<Rightarrow> int \<Rightarrow> int \<Rightarrow> GroupMember option" where
  "getGroupMembership s groupId userId =
     find (\<lambda>member. member_groupId member = groupId \<and> member_userId member = userId)
       (js_values (groupMembers s))"

subsection \<open>Derived memory queries\<close>



definition getGroupMemories :: "MemStorage \<Rightarrow> int \<Rightarrow> Memory list" where
  "getGroupMemories s groupId =
     (let members = getGroupMembers s groupId;
          memberIds = map member_userId members
      in sort_newest_first
           (filter (\<lambda>memory. memory_userId memory \<in> set memberIds \<and> \<not> memory_isPrivate memory)
              (js_values (memories s))))"

subsection \<open>Notification methods\<close>

definition getNotification :: "MemStorage \<Rightarrow> int \<Rightarrow> Notification option" where
  "getNotification s i = js_get (notifications s) i"

definition getUserNotifications :: "MemStorage \<Rightarrow> int \<Rightarrow> Notification list" where
  "getUserNotifications s userId =
     sort_key (\<lambda>n. - notification_createdAt n)
       (filter (\<lambda>notification. notification_userId notification = userId)
          (js_values (notifications s)))"

definition createNotification ::
  "MemStorage \<Rightarrow> int \<Rightarrow> InsertNotification \<Rightarrow> MemStorage \<times> Notification" where
  "createNotification s now notificationData =
     (let i = notificationIdCounter s;
          notification = \<lparr> notification_id = i,
             notification_userId = in_userId notificationData,
             notification_type = in_type notificationData,
             notification_content = in_content notificationData,
             notification_read = in_read notificationData,
             notification_relatedId = in_relatedId notificationData,
             notification_createdAt = now \<rparr>
      in (s\<lparr> notificationIdCounter := i + 1,
             notifications := js_set i notification (notifications s) \<rparr>, notification))"

definition markNotificationAsRead :: "MemStorage \<Rightarrow> int \<Rightarrow> error + MemStorage \<times> Notification" where
  "markNotificationAsRead s i =
     (case getNotification s i of
        None \<Rightarrow> Inl (Error ''Notification not found'')
      | Some notification \<Rightarrow>
          (let updatedNotification = notification\<lparr> notification_read := True \<rparr>
           in Inr (s\<lparr> notifications := js_set i updatedNotification (notifications s) \<rparr>,
                   updatedNotification)))"

subsection \<open>Friend requests\<close>

definition between :: "int \<Rightarrow> int \<Rightarrow> Friend \<Rightarrow> bool" where
  "between userId friendId friend \<longleftrightarrow>
     (friend_userId friend = userId \<and> friend_friendId friend = friendId) \<or>
     (friend_userId friend = friendId \<and> friend_friendId friend = userId)"

definition createFriendRequest ::
  "MemStorage \<Rightarrow> int \<Rightarrow> int \<Rightarrow> int \<Rightarrow> error + MemStorage \<times> Friend" where
  "createFriendRequest s now userId friendId =
     (let existingRequests = filter (between userId friendId) (js_values (friends s))
      in if length existingRequests > 0 then Inl (Error ''Friend request already exists'')
         else
           (let i = friendIdCounter s;
                friendRequest = \<lparr> friend_id = i, friend_userId = userId,
                   friend_friendId = friendId, friend_status = ''pending'',
                   friend_createdAt = now \<rparr>;
                s1 = s\<lparr> friendIdCounter := i + 1,
                        friends := js_set i friendRequest (friends s) \<rparr>;
                s2 = fst (createNotification s1 now
                       \<lparr> in_userId = friendId, in_type = ''friend_request'',
                         in_content = ''You have a new friend request'', in_read = False,
                         in_relatedId = Some i \<rparr>)
            in Inr (s2, friendRequest)))"

definition acceptFriendRequest :: "MemStorage \<Rightarrow> int \<Rightarrow> int \<Rightarrow> error + MemStorage \<times> Friend" where
  "acceptFriendRequest s now requestId =
     (case getFriendRequest s requestId of
        None \<Rightarrow> Inl (Error ''Friend request not found'')
      | Some request \<Rightarrow>
          (let updatedRequest = request\<lparr> friend_status := ''accepted'' \<rparr>;
               s1 = s\<lparr> friends := js_set requestId updatedRequest (friends s) \<rparr>;
               s2 = fst (createNotification s1 now
                      \<lparr> in_userId = friend_userId request, in_type = ''friend_accepted'',
                        in_content = ''Your friend request was accepted'', in_read = False,
                        in_relatedId = Some requestId \<rparr>)
           in Inr (s2, updatedRequest)))"

definition rejectFriendRequest :: "MemStorage \<Rightarrow> int \<Rightarrow> error + MemStorage" where
  "rejectFriendRequest s requestId =
     (case getFriendRequest s requestId of
        None \<Rightarrow> Inl (Error ''Friend request not found'')
      | Some request \<Rightarrow>
          (let updatedRequest = request\<lparr> friend_status := ''rejected'' \<rparr>
           in Inr (s\<lparr> friends := js_set requestId updatedRequest (friends s) \<rparr>)))"

definition removeFriend :: "MemStorage \<Rightarrow> int \<Rightarrow> int \<Rightarrow> MemStorage" where
  "removeFriend s userId friendId =
     (let friendships = filter (between userId friendId) (js_values (friends s))
      in s\<lparr> friends := delete_all (map friend_id friendships) (friends s) \<rparr>)"

subsection \<open>Group methods\<close>

definition createGroup :: "MemStorage \<Rightarrow> int \<Rightarrow> InsertGroup \<Rightarrow> MemStorage \<times> Group" where
  "createGroup s now groupData =
     (let i = groupIdCounter s;
          grp = \<lparr> group_id = i, group_name = ig_name groupData,
                    group_description = ig_description groupData,
                    group_createdBy = ig_createdBy groupData,
                    group_avatar = ig_avatar groupData, group_createdAt = now \<rparr>
      in (s\<lparr> groupIdCounter := i + 1, groups := js_set i grp (groups s) \<rparr>, grp))"

definition merge_group :: "Group \<Rightarrow> PartialGroup \<Rightarrow> Group" where
  "merge_group g p = \<lparr> group_id = override (group_id g) (pg_id p),
     group_name = override (group_name g) (pg_name p),
     group_description = override (group_description g) (pg_description p),
     group_createdBy = override (group_createdBy g) (pg_createdBy p),
     group_avatar = override (group_avatar g) (pg_avatar p),
     group_createdAt = override (group_createdAt g) (pg_createdAt p) \<rparr>"

definition updateGroup :: "MemStorage \<Rightarrow> int \<Rightarrow> PartialGroup \<Rightarrow> error + MemStorage \<times> Group" where
  "updateGroup s i groupData =
     (case getGroup s i of
        None \<Rightarrow> Inl (Error ''Group not found'')
      | Some grp \<Rightarrow>
          (let updatedGroup = merge_group grp groupData
           in Inr (s\<lparr> groups := js_set i updatedGroup (groups s) \<rparr>, updatedGroup)))"

definition deleteGroup :: "MemStorage \<Rightarrow> int \<Rightarrow> MemStorage" where
  "deleteGroup s i =
     (let s1 = s\<lparr> groups := js_delete i (groups s) \<rparr>;
          membersToDelete = filter (\<lambda>member. member_groupId member = i)
                              (js_values (groupMembers s1))
      in s1\<lparr> groupMembers := delete_all (map member_id membersToDelete) (groupMembers s1) \<rparr>)"

subsection \<open>Group member methods\<close>

definition addGroupMember ::
  "MemStorage \<Rightarrow> int \<Rightarrow> InsertGroupMember \<Rightarrow> MemStorage \<times> GroupMember" where
  "addGroupMember s now memberData =
     (let i = groupMemberIdCounter s;
          member = \<lparr> member_id = i, member_groupId = igm_groupId memberData,
                     member_userId = igm_userId memberData, member_role = igm_role memberData,
                     member_joinedAt = now \<rparr>
      in (s\<lparr> groupMemberIdCounter := i + 1,
             groupMembers := js_set i member (groupMembers s) \<rparr>, member))"

definition updateGroupMember ::
  "MemStorage \<Rightarrow> int \<Rightarrow> int \<Rightarrow> string \<Rightarrow> error + MemStorage \<times> GroupMember" where
  "updateGroupMember s groupId userId role =
     (case getGroupMembership s groupId userId of
        None \<Rightarrow> Inl (Error ''Group membership not found'')
      | Some membership \<Rightarrow>
          (let updatedMembership = membership\<lparr> member_role := role \<rparr>
           in Inr (s\<lparr> groupMembers :=
                       js_set (member_id membership) updatedMembership (groupMembers s) \<rparr>,
                   updatedMembership)))"

definition removeGroupMember :: "MemStorage \<Rightarrow> int \<Rightarrow> int \<Rightarrow> MemStorage" where
  "removeGroupMember s groupId userId =
     (case getGroupMembership s groupId userId of
        Some membership \<Rightarrow>
          s\<lparr> groupMembers := js_delete (member_id membership) (groupMembers s) \<rparr>
      | None \<Rightarrow> s)"

subsection \<open>Comment methods\<close>

definition getComment :: "MemStorage \<Rightarrow> int \<Rightarrow> Comment option" where
  "getComment s i = js_get (comments s) i"

definition getMemoryComments :: "MemStorage \<Rightarrow> int \<Rightarrow> Comment list" where
  "getMemoryComments s memoryId =
     sort_key comment_createdAt
       (filter (\<lambda>comment. comment_memoryId comment = memoryId) (js_values (comments s)))"

definition createComment :: "MemStorage \<Rightarrow> int \<Rightarrow> InsertComment \<Rightarrow> MemStorage \<times> Comment" where
  "createComment s now commentData =
     (let i = commentIdCounter s;
          comment = \<lparr> comment_id = i, comment_memoryId = ic_memoryId commentData,
                      comment_userId = ic_userId commentData,
                      comment_content = ic_content commentData, comment_createdAt = now \<rparr>;
          s1 = s\<lparr> commentIdCounter := i + 1, comments := js_set i comment (comments s) \<rparr>;
          s2 = (case getMemory s1 (ic_memoryId commentData) of
                  Some memory \<Rightarrow>
                    if memory_userId memory \<noteq> ic_userId commentData
                    then fst (createNotification s1 now
                           \<lparr> in_userId = memory_userId memory, in_type = ''new_comment'',
                             in_content = ''Someone commented on your memory'',
                             in_read = False, in_relatedId = Some i \<rparr>)
                    else s1
                | None \<Rightarrow> s1)
      in (s2, comment))"

definition deleteComment :: "MemStorage \<Rightarrow> int \<Rightarrow> MemStorage" where
  "deleteComment s i = s\<lparr> comments := js_delete i (comments s) \<rparr>"

subsection \<open>Sequences of storage calls\<close>

text \<open>
  Every mutating method of the storage interface, with its arguments. A call that throws
  leaves the store as it was: each \<^verbatim>\<open>throw\<close> of the storage precedes the first write of
  its method.
\<close>

datatype call =
    CreateUser int InsertUser
  | UpdateUser int PartialUser
  | CreateMemory int InsertMemory
  | UpdateMemory int PartialMemory
  | DeleteMemory int
  | CreateFriendRequest int int int
  | AcceptFriendRequest int int
  | RejectFriendRequest int
  | RemoveFriend int int
  | CreateGroup int InsertGroup
  | UpdateGroup int PartialGroup
  | DeleteGroup int
  | AddGroupMember int InsertGroupMember
  | UpdateGroupMember int int string
  | RemoveGroupMember int int
  | CreateNotification int InsertNotification
  | MarkNotificationAsRead int
  | CreateComment int InsertComment
  | DeleteComment int

fun perform :: "call \<Rightarrow> MemStorage \<Rightarrow> error + MemStorage" where
  "perform (CreateUser now d) s = Inr (fst (createUser s now d))"
| "perform (UpdateUser i d) s = map_sum id fst (updateUser s i d)"
| "perform (CreateMemory now d) s = Inr (fst (createMemory s now d))"
| "perform (UpdateMemory i d) s = map_sum id fst (updateMemory s i d)"
| "perform (DeleteMemory i) s = Inr (deleteMemory s i)"
| "perform (CreateFriendRequest now u f) s = map_sum id fst (createFriendRequest s now u f)"
| "perform (AcceptFriendRequest now r) s = map_sum id fst (acceptFriendRequest s now r)"
| "perform (RejectFriendRequest r) s = rejectFriendRequest s r"
| "perform (RemoveFriend u f) s = Inr (removeFriend s u f)"
| "perform (CreateGroup now d) s = Inr (fst (createGroup s now d))"
| "perform (UpdateGroup i d) s = map_sum id fst (updateGroup s i d)"
| "perform (DeleteGroup i) s = Inr (deleteGroup s i)"
| "perform (AddGroupMember now d) s = Inr (fst (addGroupMember s now d))"
| "perform (UpdateGroupMember g u r) s = map_sum id fst (updateGroupMember s g u r)"
| "perform (RemoveGroupMember g u) s = Inr (removeGroupMember s g u)"
| "perform (CreateNotification now d) s = Inr (fst (createNotification s now d))"
| "perform (MarkNotificationAsRead i) s = map_sum id fst (markNotificationAsRead s i)"
| "perform (CreateComment now d) s = Inr (fst (createComment s now d))"
| "perform (DeleteComment i) s = Inr (deleteComment s i)"

definition after :: "call \<Rightarrow> MemStorage \<Rightarrow> MemStorage" where
  "after c s = (case perform c s of Inl e \<Rightarrow> s | Inr s' \<Rightarrow> s')"

definition run :: "call list \<Rightarrow> MemStorage \<Rightarrow> MemStorage" where
  "run cs s = fold after cs s"

inductive reachable :: "MemStorage \<Rightarrow> bool" where
  reachable_new: "reachable newMemStorage"
| reachable_call: "reachable s \<Longrightarrow> reachable (after c s)"

text \<open>
  What the storage keeps true of its maps: keys are distinct and below the counter of their
  map, and in the maps whose records are never merged with caller-supplied fields
  (friends, group members, notifications, comments) each record sits under its own id.
  Users, memories and groups may hold a record whose \<open>id\<close> field differs from its key,
  since \<^verbatim>\<open>{ ...old, ...partial }\<close> lets the partial object overwrite \<open>id\<close>.
\<close>

definition keys_below :: "int \<Rightarrow> 'v jsmap \<Rightarrow> bool" where
  "keys_below c m \<longleftrightarrow> distinct (js_keys m) \<and> list_all (\<lambda>k. k < c) (js_keys m)"

definition keyed_by :: "('v \<Rightarrow> int) \<Rightarrow> 'v jsmap \<Rightarrow> bool" where
  "keyed_by f m \<longleftrightarrow> list_all (\<lambda>p. f (snd p) = fst p) m"

definition store_inv :: "MemStorage \<Rightarrow> bool" where
  "store_inv s \<longleftrightarrow>
     keys_below (userIdCounter s) (users s) \<and>
     keys_below (memoryIdCounter s) (memories s) \<and>
     keys_below (friendIdCounter s) (friends s) \<and>
     keys_below (groupIdCounter s) (groups s) \<and>
     keys_below (groupMemberIdCounter s) (groupMembers s) \<and>
     keys_below (notificationIdCounter s) (notifications s) \<and>
     keys_below (commentIdCounter s) (comments s) \<and>
     keyed_by friend_id (friends s) \<and>
     keyed_by member_id (groupMembers s) \<and>
     keyed_by notification_id (notifications s) \<and>
     keyed_by comment_id (comments s)"

section \<open>The HTTP handlers (registerRoutes)\<close>

text \<open>
  A handler takes the store, the id of the authenticated caller (\<open>None\<close> when
  \<^verbatim>\<open>req.isAuthenticated()\<close> is false), the parsed path parameters and the request body,
  and returns the store it leaves together with its reply. Response bodies are left out.
  The outcome of a schema validation (\<^verbatim>\<open>schema.parse\<close>) is an argument: \<open>None\<close> stands
  for a \<^verbatim>\<open>ZodError\<close>, \<open>Some d\<close> for the validated data; the handler then fixes the fields
  it overrides (\<^verbatim>\<open>userId: req.user.id\<close> and the like). A storage error thrown outside a
  \<^verbatim>\<open>try\<close> block rejects the handler's promise; no reply is sent.
\<close>

datatype reply = Status nat | Rejected error

definition get_api_memories_id :: "MemStorage \<Rightarrow> int option \<Rightarrow> int \<Rightarrow> reply" where
  "get_api_memories_id s caller memoryId =
     (case caller of None \<Rightarrow> Status 401
      | Some uid \<Rightarrow>
          (case getMemory s memoryId of None \<Rightarrow> Status 404
           | Some memory \<Rightarrow>
               if memory_userId memory \<noteq> uid \<and> memory_isPrivate memory then Status 403
               else Status 200))"

definition put_api_user :: "MemStorage \<Rightarrow> int option \<Rightarrow> PartialUser \<Rightarrow> MemStorage \<times> reply" where
  "put_api_user s caller body =
     (case caller of None \<Rightarrow> (s, Status 401)
      | Some uid \<Rightarrow>
          (case updateUser s uid body of Inl e \<Rightarrow> (s, Rejected e)
           | Inr (s', u) \<Rightarrow> (s', Status 200)))"

definition post_api_memories ::
  "MemStorage \<Rightarrow> int \<Rightarrow> int option \<Rightarrow> InsertMemory option \<Rightarrow> MemStorage \<times> reply" where
  "post_api_memories s now caller parsed =
     (case caller of None \<Rightarrow> (s, Status 401)
      | Some uid \<Rightarrow>
          (case parsed of None \<Rightarrow> (s, Status 400)
           | Some d \<Rightarrow> (fst (createMemory s now (d\<lparr> im_userId := uid \<rparr>)), Status 201)))"

definition put_api_memories_id ::
  "MemStorage \<Rightarrow> int option \<Rightarrow> int \<Rightarrow> PartialMemory \<Rightarrow> MemStorage \<times> reply" where
  "put_api_memories_id s caller memoryId body =
     (case caller of None \<Rightarrow> (s, Status 401)
      | Some uid \<Rightarrow>
          (case getMemory s memoryId of None \<Rightarrow> (s, Status 404)
           | Some memory \<Rightarrow>
               if memory_userId memory \<noteq> uid then (s, Status 403)
               else (case updateMemory s memoryId body of Inl e \<Rightarrow> (s, Status 500)
                     | Inr (s', m) \<Rightarrow> (s', Status 200))))"

definition delete_api_memories_id :: "MemStorage \<Rightarrow> int option \<Rightarrow> int \<Rightarrow> MemStorage \<times> reply" where
  "delete_api_memories_id s caller memoryId =
     (case caller of None \<Rightarrow> (s, Status 401)
      | Some uid \<Rightarrow>
          (case getMemory s memoryId of None \<Rightarrow> (s, Status 404)
           | Some memory \<Rightarrow>
               if memory_userId memory \<noteq> uid then (s, Status 403)
               else (deleteMemory s memoryId, Status 204)))"

definition post_api_friends_request ::
  "MemStorage \<Rightarrow> int \<Rightarrow> int option \<Rightarrow> int \<Rightarrow> MemStorage \<times> reply" where
  "post_api_friends_request s now caller friendId =
     (case caller of None \<Rightarrow> (s, Status 401)
      | Some uid \<Rightarrow>
          if friendId = uid then (s, Status 400)
          else (case getUser s friendId of None \<Rightarrow> (s, Status 404)
                | Some friend \<Rightarrow>
                    (case createFriendRequest s now uid friendId of Inl e \<Rightarrow> (s, Status 500)
                     | Inr (s', r) \<Rightarrow> (s', Status 201))))"

definition post_api_friends_accept ::
  "MemStorage \<Rightarrow> int \<Rightarrow> int option \<Rightarrow> int \<Rightarrow> MemStorage \<times> reply" where
  "post_api_friends_accept s now caller requestId =
     (case caller of None \<Rightarrow> (s, Status 401)
      | Some uid \<Rightarrow>
          (case getFriendRequest s requestId of None \<Rightarrow> (s, Status 404)
           | Some request \<Rightarrow>
               if friend_friendId request \<noteq> uid then (s, Status 403)
               else (case acceptFriendRequest s now requestId of Inl e \<Rightarrow> (s, Rejected e)
                     | Inr (s', r) \<Rightarrow> (s', Status 200))))"

definition post_api_friends_reject :: "MemStorage \<Rightarrow> int option \<Rightarrow> int \<Rightarrow> MemStorage \<times> reply" where
  "post_api_friends_reject s caller requestId =
     (case caller of None \<Rightarrow> (s, Status 401)
      | Some uid \<Rightarrow>
          (case getFriendRequest s requestId of None \<Rightarrow> (s, Status 404)
           | Some request \<Rightarrow>
               if friend_friendId request \<noteq> uid then (s, Status 403)
               else (case rejectFriendRequest s requestId of Inl e \<Rightarrow> (s, Rejected e)
                     | Inr s' \<Rightarrow> (s', Status 204))))"

definition delete_api_friends :: "MemStorage \<Rightarrow> int option \<Rightarrow> int \<Rightarrow> MemStorage \<times> reply" where
  "delete_api_friends s caller friendId =
     (case caller of None \<Rightarrow> (s, Status 401)
      | Some uid \<Rightarrow> (removeFriend s uid friendId, Status 204))"

text \<open>The validated body of a group: \<^verbatim>\<open>createdBy\<close> is set by the handler.\<close>

definition post_api_groups ::
  "MemStorage \<Rightarrow> int \<Rightarrow> int option \<Rightarrow> InsertGroup option \<Rightarrow> MemStorage \<times> reply" where
  "post_api_groups s now caller parsed =
     (case caller of None \<Rightarrow> (s, Status 401)
      | Some uid \<Rightarrow>
          (case parsed of None \<Rightarrow> (s, Status 400)
           | Some d \<Rightarrow>
               (let (s1, grp) = createGroup s now (d\<lparr> ig_createdBy := uid \<rparr>);
                    s2 = fst (addGroupMember s1 now
                           \<lparr> igm_groupId = group_id grp, igm_userId = uid,
                             igm_role = ''admin'' \<rparr>)
                in (s2, Status 201))))"

definition is_admin :: "MemStorage \<Rightarrow> int \<Rightarrow> int \<Rightarrow> bool" where
  "is_admin s groupId uid =
     (case getGroupMembership s groupId uid of None \<Rightarrow> False
      | Some membership \<Rightarrow> member_role membership = ''admin'')"

definition put_api_groups_id ::
  "MemStorage \<Rightarrow> int option \<Rightarrow> int \<Rightarrow> PartialGroup \<Rightarrow> MemStorage \<times> reply" where
  "put_api_groups_id s caller groupId body =
     (case caller of None \<Rightarrow> (s, Status 401)
      | Some uid \<Rightarrow>
          (case getGroup s groupId of None \<Rightarrow> (s, Status 404)
           | Some grp \<Rightarrow>
               if \<not> is_admin s groupId uid then (s, Status 403)
               else (case updateGroup s groupId body of Inl e \<Rightarrow> (s, Status 500)
                     | Inr (s', g) \<Rightarrow> (s', Status 200))))"

definition post_api_groups_join ::
  "MemStorage \<Rightarrow> int \<Rightarrow> int option \<Rightarrow> int \<Rightarrow> MemStorage \<times> reply" where
  "post_api_groups_join s now caller groupId =
     (case caller of None \<Rightarrow> (s, Status 401)
      | Some uid \<Rightarrow>
          (case getGroup s groupId of None \<Rightarrow> (s, Status 404)
           | Some grp \<Rightarrow>
               (case getGroupMembership s groupId uid of
                  Some membership \<Rightarrow> (s, Status 400)
                | None \<Rightarrow>
                    (fst (addGroupMember s now
                       \<lparr> igm_groupId = groupId, igm_userId = uid, igm_role = ''member'' \<rparr>),
                     Status 201))))"

definition post_api_groups_leave :: "MemStorage \<Rightarrow> int option \<Rightarrow> int \<Rightarrow> MemStorage \<times> reply" where
  "post_api_groups_leave s caller groupId =
     (case caller of None \<Rightarrow> (s, Status 401)
      | Some uid \<Rightarrow>
          (case getGroupMembership s groupId uid of None \<Rightarrow> (s, Status 400)
           | Some membership \<Rightarrow> (removeGroupMember s groupId uid, Status 204)))"

definition delete_api_groups_members ::
  "MemStorage \<Rightarrow> int option \<Rightarrow> int \<Rightarrow> int \<Rightarrow> MemStorage \<times> reply" where
  "delete_api_groups_members s caller groupId userId =
     (case caller of None \<Rightarrow> (s, Status 401)
      | Some uid \<Rightarrow>
          if \<not> is_admin s groupId uid then (s, Status 403)
          else (removeGroupMember s groupId userId, Status 204))"

definition put_api_notifications_read ::
  "MemStorage \<Rightarrow> int option \<Rightarrow> int \<Rightarrow> MemStorage \<times> reply" where
  "put_api_notifications_read s caller notificationId =
     (case caller of None \<Rightarrow> (s, Status 401)
      | Some uid \<Rightarrow>
          (case getNotification s notificationId of None \<Rightarrow> (s, Status 404)
           | Some notification \<Rightarrow>
               if notification_userId notification \<noteq> uid then (s, Status 403)
               else (case markNotificationAsRead s notificationId of Inl e \<Rightarrow> (s, Rejected e)
                     | Inr (s', n) \<Rightarrow> (s', Status 200))))"

definition post_api_memories_comments ::
  "MemStorage \<Rightarrow> int \<Rightarrow> int option \<Rightarrow> int \<Rightarrow> InsertComment option \<Rightarrow> MemStorage \<times> reply" where
  "post_api_memories_comments s now caller memoryId parsed =
     (case caller of None \<Rightarrow> (s, Status 401)
      | Some uid \<Rightarrow>
          (case parsed of None \<Rightarrow> (s, Status 400)
           | Some d \<Rightarrow>
               (fst (createComment s now (d\<lparr> ic_memoryId := memoryId, ic_userId := uid \<rparr>)),
                Status 201)))"

definition delete_api_comments_id :: "MemStorage \<Rightarrow> int option \<Rightarrow> int \<Rightarrow> MemStorage \<times> reply" where
  "delete_api_comments_id s caller commentId =
     (case caller of None \<Rightarrow> (s, Status 401)
      | Some uid \<Rightarrow>
          (case getComment s commentId of None \<Rightarrow> (s, Status 404)
           | Some comment \<Rightarrow>
               if comment_userId comment \<noteq> uid then (s, Status 403)
               else (deleteComment s commentId, Status 204)))"

text \<open>
  The requests that can change the store. \<^verbatim>\<open>setupAuth\<close>, which registers users, is a
  separate module; \<open>AuthCreateUser\<close> stands for its call of \<^verbatim>\<open>createUser\<close>.
\<close>

datatype request =
    PutUser "int option" PartialUser
  | PostMemory int "int option" "InsertMemory option"
  | PutMemory "int option" int PartialMemory
  | DeleteMemoryReq "int option" int
  | PostFriendRequest int "int option" int
  | PostFriendAccept int "int option" int
  | PostFriendReject "int option" int
  | DeleteFriend "int option" int
  | PostGroup int "int option" "InsertGroup option"
  | PutGroup "int option" int PartialGroup
  | PostGroupJoin int "int option" int
  | PostGroupLeave "int option" int
  | DeleteGroupMemberReq "int option" int int
  | PutNotificationRead "int option" int
  | PostComment int "int option" int "InsertComment option"
  | DeleteCommentReq "int option" int
  | AuthCreateUser int InsertUser

fun handle :: "request \<Rightarrow> MemStorage \<Rightarrow> MemStorage" where
  "handle (PutUser c b) s = fst (put_api_user s c b)"
| "handle (PostMemory now c b) s = fst (post_api_memories s now c b)"
| "handle (PutMemory c i b) s = fst (put_api_memories_id s c i b)"
| "handle (DeleteMemoryReq c i) s = fst (delete_api_memories_id s c i)"
| "handle (PostFriendRequest now c f) s = fst (post_api_friends_request s now c f)"
| "handle (PostFriendAccept now c r) s = fst (post_api_friends_accept s now c r)"
| "handle (PostFriendReject c r) s = fst (post_api_friends_reject s c r)"
| "handle (DeleteFriend c f) s = fst (delete_api_friends s c f)"
| "handle (PostGroup now c b) s = fst (post_api_groups s now c b)"
| "handle (PutGroup c i b) s = fst (put_api_groups_id s c i b)"
| "handle (PostGroupJoin now c g) s = fst (post_api_groups_join s now c g)"
| "handle (PostGroupLeave c g) s = fst (post_api_groups_leave s c g)"
| "handle (DeleteGroupMemberReq c g u) s = fst (delete_api_groups_members s c g u)"
| "handle (PutNotificationRead c i) s = fst (put_api_notifications_read s c i)"
| "handle (PostComment now c m b) s = fst (post_api_memories_comments s now c m b)"
| "handle (DeleteCommentReq c i) s = fst (delete_api_comments_id s c i)"
| "handle (AuthCreateUser now d) s = fst (createUser s now d)"

inductive served :: "MemStorage \<Rightarrow> bool" where
  served_new: "served newMemStorage"
| served_request: "served s \<Longrightarrow> served (handle r s)"

section \<open>The calendar grid (date utilities)\<close>

text \<open>
  \<^verbatim>\<open>getCalendarDays\<close> is written against the JavaScript \<^verbatim>\<open>Date\<close> and the date-fns
  functions \<^verbatim>\<open>startOfMonth\<close>, \<^verbatim>\<open>endOfMonth\<close>, \<^verbatim>\<open>subMonths\<close>, \<^verbatim>\<open>addMonths\<close> and
  \<^verbatim>\<open>eachDayOfInterval\<close>, which are libraries; their behaviour is written out here.

  A \<^verbatim>\<open>Date\<close> object holds either a time value or \<^verbatim>\<open>NaN\<close> (an Invalid Date). The
  dates of this function are compared and stepped by whole local days, so a valid date is
  modelled by its calendar fields (months count from 0 as in JavaScript) and an Invalid Date
  by \<open>None\<close>; a getter of an Invalid Date returns \<^verbatim>\<open>NaN\<close>, modelled as \<open>None\<close>. The time of
  day and the offset of the local time zone are not modelled. Dates compare by their day
  number, the number of days since 1 January 1970.
\<close>

record CivilDate =
  year :: int
  month :: int
  dayOfMonth :: int

abbreviation civil :: "int \<Rightarrow> int \<Rightarrow> int \<Rightarrow> CivilDate" where
  "civil y m k \<equiv> \<lparr> year = y, month = m, dayOfMonth = k \<rparr>"

type_synonym Date = "CivilDate option"

definition isLeapYear :: "int \<Rightarrow> bool" where
  "isLeapYear y \<longleftrightarrow> y mod 4 = 0 \<and> (y mod 100 \<noteq> 0 \<or> y mod 400 = 0)"

definition daysInMonth :: "int \<Rightarrow> int \<Rightarrow> int" where
  "daysInMonth y m =
     (if m = 1 then (if isLeapYear y then 29 else 28)
      else if m = 3 \<or> m = 5 \<or> m = 8 \<or> m = 10 then 30 else 31)"

definition valid_date :: "CivilDate \<Rightarrow> bool" where
  "valid_date d \<longleftrightarrow> 0 \<le> month d \<and> month d \<le> 11 \<and> 1 \<le> dayOfMonth d \<and>
     dayOfMonth d \<le> daysInMonth (year d) (month d)"

text \<open>The day number, after the ECMAScript definitions of \<^verbatim>\<open>DayFromYear\<close> and \<^verbatim>\<open>WeekDay\<close>.\<close>

definition dayFromYear :: "int \<Rightarrow> int" where
  "dayFromYear y = 365 * (y - 1970) + (y - 1969) div 4 - (y - 1901) div 100 + (y - 1601) div 400"

definition monthStart :: "int \<Rightarrow> int \<Rightarrow> int" where
  "monthStart y m = sum_list (map (daysInMonth y) [0..m - 1])"

definition dayNumber :: "CivilDate \<Rightarrow> int" where
  "dayNumber d = dayFromYear (year d) + monthStart (year d) (month d) + (dayOfMonth d - 1)"

text \<open>
  \<^verbatim>\<open>TimeClip\<close>: a time value further than 100,000,000 days from 1 January 1970 is
  \<^verbatim>\<open>NaN\<close>. The latest date is 13 September 275760, the earliest 20 April -271821.
\<close>

definition inRange :: "CivilDate \<Rightarrow> bool" where
  "inRange d \<longleftrightarrow> - 100000000 \<le> dayNumber d \<and> dayNumber d \<le> 100000000"

definition timeClip :: "CivilDate \<Rightarrow> Date" where
  "timeClip d = (if inRange d then Some d else None)"

definition nextDay :: "CivilDate \<Rightarrow> CivilDate" where
  "nextDay d =
     (if dayOfMonth d < daysInMonth (year d) (month d) then d\<lparr> dayOfMonth := dayOfMonth d + 1 \<rparr>
      else if month d < 11 then civil (year d) (month d + 1) 1
      else civil (year d + 1) 0 1)"

definition prevDay :: "CivilDate \<Rightarrow> CivilDate" where
  "prevDay d =
     (if 1 < dayOfMonth d then d\<lparr> dayOfMonth := dayOfMonth d - 1 \<rparr>
      else if 0 < month d
        then civil (year d) (month d - 1) (daysInMonth (year d) (month d - 1))
      else civil (year d - 1) 11 31)"

definition addDays :: "CivilDate \<Rightarrow> int \<Rightarrow> CivilDate" where
  "addDays d n = (if 0 \<le> n then (nextDay ^^ nat n) d else (prevDay ^^ nat (- n)) d)"

text \<open>
  \<^verbatim>\<open>MakeDay(year, month, date)\<close>: a month outside 0..11 carries into the year and a day
  outside the month carries into the neighbouring months.
\<close>

definition makeDay :: "int \<Rightarrow> int \<Rightarrow> int \<Rightarrow> CivilDate" where
  "makeDay y m dd = addDays (civil (y + m div 12) (m mod 12) 1) (dd - 1)"

text \<open>The getters; \<open>None\<close> is \<^verbatim>\<open>NaN\<close>.\<close>

definition getFullYear :: "Date \<Rightarrow> int option" where
  "getFullYear d = map_option year d"

definition getMonth :: "Date \<Rightarrow> int option" where
  "getMonth d = map_option month d"

definition getDate :: "Date \<Rightarrow> int option" where
  "getDate d = map_option dayOfMonth d"

definition getDay :: "Date \<Rightarrow> int option" where
  "getDay d = map_option (\<lambda>c. (dayNumber c + 4) mod 7) d"

text \<open>
  \<^verbatim>\<open>new Date(year, month, day)\<close>: a \<^verbatim>\<open>NaN\<close> argument gives an Invalid Date, and a year
  from 0 to 99 stands for 1900 + year.
\<close>

definition constructorYear :: "int \<Rightarrow> int" where
  "constructorYear y = (if 0 \<le> y \<and> y \<le> 99 then 1900 + y else y)"

definition newDate :: "int option \<Rightarrow> int option \<Rightarrow> int option \<Rightarrow> Date" where
  "newDate y m dd =
     (case (y, m, dd) of
        (Some y', Some m', Some dd') \<Rightarrow> timeClip (makeDay (constructorYear y') m' dd')
      | _ \<Rightarrow> None)"

definition setDate :: "Date \<Rightarrow> int option \<Rightarrow> Date" where
  "setDate d dd =
     (case (d, dd) of
        (Some c, Some dd') \<Rightarrow> timeClip (makeDay (year c) (month c) dd')
      | _ \<Rightarrow> None)"

text \<open>
  date-fns. \<^verbatim>\<open>startOfMonth\<close> sets the day to 1; \<^verbatim>\<open>endOfMonth\<close> sets the date to day 0 of
  the following month. \<^verbatim>\<open>addMonths\<close> first builds the last day of the target month and
  reads its day count, then keeps the day of the month or returns that last day when the
  target month is shorter; when the last day of the target month is out of range its day
  count is \<^verbatim>\<open>NaN\<close> and the result is an Invalid Date.
\<close>

definition startOfMonth :: "Date \<Rightarrow> Date" where
  "startOfMonth d = setDate d (Some 1)"

definition endOfMonth :: "Date \<Rightarrow> Date" where
  "endOfMonth d =
     (case d of None \<Rightarrow> None
      | Some c \<Rightarrow> timeClip (makeDay (year c) (month c + 1) 0))"

definition addMonths :: "Date \<Rightarrow> int \<Rightarrow> Date" where
  "addMonths d n =
     (case d of None \<Rightarrow> None
      | Some c \<Rightarrow>
          if n = 0 then d
          else
            (case timeClip (makeDay (year c) (month c + n + 1) 0) of
               None \<Rightarrow> None
             | Some endOfDesiredMonth \<Rightarrow>
                 if dayOfMonth c \<ge> dayOfMonth endOfDesiredMonth then Some endOfDesiredMonth
                 else timeClip (makeDay (year endOfDesiredMonth) (month endOfDesiredMonth)
                        (dayOfMonth c))))"

definition subMonths :: "Date \<Rightarrow> int \<Rightarrow> Date" where
  "subMonths d n = addMonths d (- n)"

text \<open>
  \<^verbatim>\<open>eachDayOfInterval\<close> collects the days from start to end, stepping one day at a time.
  Up to date-fns 3 it throws a \<^verbatim>\<open>RangeError\<close> when the start lies after the end or either
  is an Invalid Date; date-fns 4 returns the days in reverse order in the first case and the
  empty array in the second. The flag \<open>throwing\<close> selects the behaviour.
\<close>

fun days_from :: "nat \<Rightarrow> CivilDate \<Rightarrow> CivilDate list" where
  "days_from 0 d = []"
| "days_from (Suc n) d = d # days_from n (nextDay d)"

definition eachDayOfInterval :: "bool \<Rightarrow> Date \<Rightarrow> Date \<Rightarrow> error + CivilDate list" where
  "eachDayOfInterval throwing start end' =
     (case (start, end') of
        (Some s, Some e) \<Rightarrow>
          if dayNumber s \<le> dayNumber e
          then Inr (days_from (nat (dayNumber e - dayNumber s + 1)) s)
          else if throwing then Inl (Error ''Invalid interval'')
          else Inr (rev (days_from (nat (dayNumber s - dayNumber e + 1)) e))
      | _ \<Rightarrow> if throwing then Inl (Error ''Invalid interval'') else Inr [])"

text \<open>The function itself. A comparison with \<^verbatim>\<open>NaN\<close> is false.\<close>

definition previousMonthDays_of :: "bool \<Rightarrow> Date \<Rightarrow> int option \<Rightarrow> error + CivilDate list" where
  "previousMonthDays_of throwing start firstDayOfWeek =
     (case firstDayOfWeek of
        None \<Rightarrow> Inr []
      | Some f \<Rightarrow>
          if f > 0 then
            (let prevMonth = subMonths start 1;
                 prevMonthEnd = endOfMonth prevMonth;
                 startDay = setDate prevMonthEnd
                   (map_option (\<lambda>g. g - f + 1) (getDate prevMonthEnd))
             in eachDayOfInterval throwing startDay prevMonthEnd)
          else Inr [])"

definition nextMonthDays_of :: "bool \<Rightarrow> Date \<Rightarrow> int \<Rightarrow> error + CivilDate list" where
  "nextMonthDays_of throwing start daysToAdd =
     (if daysToAdd > 0 then
        (let nextMonth = addMonths start 1;
             nextMonthStart = newDate (getFullYear nextMonth) (getMonth nextMonth) (Some 1);
             nextMonthEnd = newDate (getFullYear nextMonth) (getMonth nextMonth) (Some daysToAdd)
         in eachDayOfInterval throwing nextMonthStart nextMonthEnd)
      else Inr [])"

definition getCalendarDays :: "bool \<Rightarrow> Date \<Rightarrow> error + CivilDate list" where
  "getCalendarDays throwing date =
     (let start = startOfMonth date;
          end' = endOfMonth date
      in case eachDayOfInterval throwing start end' of
           Inl e \<Rightarrow> Inl e
         | Inr monthDays \<Rightarrow>
             (let firstDayOfWeek = getDay start
              in case previousMonthDays_of throwing start firstDayOfWeek of
                   Inl e \<Rightarrow> Inl e
                 | Inr previousMonthDays \<Rightarrow>
                     (let totalDaysNeeded = 42;
                          daysToAdd = totalDaysNeeded
                            - (int (length previousMonthDays) + int (length monthDays))
                      in case nextMonthDays_of throwing start daysToAdd of
                           Inl e \<Rightarrow> Inl e
                         | Inr nextMonthDays \<Rightarrow>
                             Inr (previousMonthDays @ monthDays @ nextMonthDays))))"

section \<open>Notions used to state the properties\<close>



definition record_between :: "MemStorage \<Rightarrow> int \<Rightarrow> int \<Rightarrow> bool" where
  "record_between s u f \<longleftrightarrow> (\<exists>x \<in> set (js_values (friends s)). between u f x)"

definition member_pairs :: "MemStorage \<Rightarrow> (int \<times> int) list" where
  "member_pairs s = map (\<lambda>m. (member_groupId m, member_userId m)) (js_values (groupMembers s))"

text \<open>
  What the HTTP handlers keep true of the group members: one row per (group, user) pair, and
  every row refers to a group id that has been handed out.
\<close>

definition members_inv :: "MemStorage \<Rightarrow> bool" where
  "members_inv s \<longleftrightarrow> store_inv s \<and> distinct (member_pairs s) \<and>
     list_all (\<lambda>m. member_groupId m < groupIdCounter s) (js_values (groupMembers s))"

definition same_month :: "CivilDate \<Rightarrow> CivilDate \<Rightarrow> bool" where
  "same_month d x \<longleftrightarrow> year x = year d \<and> month x = month d"

text \<open>
  The dates for which the whole of the month before and of the month after lie within the
  range of \<^verbatim>\<open>Date\<close>: the first day of the previous month is not before the earliest
  date and the last day of the next month is not after the latest.
\<close>

definition neighbours_in_range :: "CivilDate \<Rightarrow> bool" where
  "neighbours_in_range d \<longleftrightarrow> valid_date d \<and>
     inRange (civil (year d + (month d - 1) div 12) ((month d - 1) mod 12) 1) \<and>
     inRange (civil (year d + (month d + 1) div 12) ((month d + 1) mod 12)
        (daysInMonth (year d + (month d + 1) div 12) ((month d + 1) mod 12)))"

text \<open>Concrete stores and arguments on which the theorems are exercised.\<close>

definition example_store :: MemStorage where
  "example_store = run
     [CreateMemory 100 \<lparr> im_userId = 1, im_title = ''a'', im_content = ''own'', im_images = None,
        im_date = 10, im_location = None, im_isPrivate = True \<rparr>,
      CreateMemory 101 \<lparr> im_userId = 2, im_title = ''b'', im_content = ''shared'', im_images = None,
        im_date = 20, im_location = None, im_isPrivate = False \<rparr>,
      CreateMemory 102 \<lparr> im_userId = 2, im_title = ''c'', im_content = ''hidden'', im_images = None,
        im_date = 30, im_location = None, im_isPrivate = True \<rparr>,
      CreateFriendRequest 103 2 1,
      AcceptFriendRequest 104 1,
      CreateFriendRequest 105 1 3,
      CreateComment 106 \<lparr> ic_memoryId = 2, ic_userId = 1, ic_content = ''hi'' \<rparr>,
      CreateComment 107 \<lparr> ic_memoryId = 1, ic_userId = 1, ic_content = ''note'' \<rparr>]
     newMemStorage"

definition example_request :: Friend where
  "example_request = \<lparr> friend_id = 2, friend_userId = 1, friend_friendId = 3,
     friend_status = ''pending'', friend_createdAt = 105 \<rparr>"

definition alice :: InsertUser where
  "alice = \<lparr> iu_username = ''alice'', iu_password = ''pw'', iu_displayName = None,
     iu_bio = None, iu_avatar = None \<rparr>"

definition bob :: InsertUser where
  "bob = \<lparr> iu_username = ''bob'', iu_password = ''pw'', iu_displayName = None,
     iu_bio = None, iu_avatar = None \<rparr>"

definition example_group :: InsertGroup where
  "example_group = \<lparr> ig_name = ''hikers'', ig_description = None, ig_createdBy = 0,
     ig_avatar = None \<rparr>"

definition empty_user_patch :: PartialUser where
  "empty_user_patch = \<lparr> pu_id = None, pu_username = None, pu_password = None,
     pu_displayName = None, pu_bio = None, pu_avatar = None, pu_createdAt = None \<rparr>"

definition empty_memory_patch :: PartialMemory where
  "empty_memory_patch = \<lparr> pm_id = None, pm_userId = None, pm_title = None, pm_content = None,
     pm_images = None, pm_date = None, pm_location = None, pm_isPrivate = None,
     pm_createdAt = None \<rparr>"

definition empty_group_patch :: PartialGroup where
  "empty_group_patch = \<lparr> pg_id = None, pg_name = None, pg_description = None,
     pg_createdBy = None, pg_avatar = None, pg_createdAt = None \<rparr>"

definition example_member :: InsertGroupMember where
  "example_member = \<lparr> igm_groupId = 1, igm_userId = 1, igm_role = ''member'' \<rparr>"

definition example_served :: MemStorage where
  "example_served = handle (PostGroup 5 (Some 7) (Some example_group)) newMemStorage"

section \<open>Properties of the map operations\<close>

lemma js_keys_set:
  "js_keys (js_set k v m) = (if k \<in> set (js_keys m) then js_keys m else js_keys m @ [k])"
  by (induction m) (auto simp: js_keys_def)

lemma js_set_fresh: "k \<notin> set (js_keys m) \<Longrightarrow> js_set k v m = m @ [(k, v)]"
  by (induction m) (auto simp: js_keys_def)

lemma js_get_set: "js_get (js_set k v m) k' = (if k' = k then Some v else js_get m k')"
  by (induction m) (auto simp: js_get_def)

lemma js_get_delete: "js_get (js_delete k m) k' = (if k' = k then None else js_get m k')"
  by (induction m) (auto simp: js_get_def js_delete_def)

lemma js_get_None_iff: "js_get m k = None \<longleftrightarrow> k \<notin> set (js_keys m)"
  by (simp add: js_get_def js_keys_def map_of_eq_None_iff)

lemma js_get_Some_mem: "js_get m k = Some v \<Longrightarrow> (k, v) \<in> set m"
  by (simp add: js_get_def map_of_SomeD)

lemma set_js_set_subset: "set (js_set k v m) \<subseteq> insert (k, v) (set m)"
  by (induction m) auto

lemma js_set_mem: "(k, v) \<in> set (js_set k v m)"
  by (induction m) auto

lemma delete_all_filter: "delete_all ks m = filter (\<lambda>p. fst p \<notin> set ks) m"
proof (induction ks arbitrary: m)
  case Nil
  then show ?case by (simp add: delete_all_def)
next
  case (Cons k ks)
  have "delete_all (k # ks) m = delete_all ks (js_delete k m)"
    by (simp add: delete_all_def)
  also have "\<dots> = filter (\<lambda>p. fst p \<notin> set ks) (js_delete k m)"
    by (rule Cons.IH)
  also have "\<dots> = filter (\<lambda>p. fst p \<notin> set (k # ks)) m"
    by (auto simp: js_delete_def intro: filter_cong)
  finally show ?case .
qed

lemma keys_below_Nil: "keys_below c []"
  by (simp add: keys_below_def js_keys_def)

lemma keys_below_fresh: "keys_below c m \<Longrightarrow> c \<notin> set (js_keys m)"
  by (auto simp: keys_below_def list_all_iff)

lemma keys_below_set_counter: "keys_below c m \<Longrightarrow> keys_below (c + 1) (js_set c v m)"
  by (auto simp: keys_below_def js_keys_set list_all_iff)

lemma keys_below_set_present:
  "keys_below c m \<Longrightarrow> k \<in> set (js_keys m) \<Longrightarrow> keys_below c (js_set k v m)"
  by (simp add: keys_below_def js_keys_set)

lemma keys_below_filter: "keys_below c m \<Longrightarrow> keys_below c (filter P m)"
  by (auto simp: keys_below_def js_keys_def list_all_iff distinct_map_filter)

lemma keys_below_delete: "keys_below c m \<Longrightarrow> keys_below c (js_delete k m)"
  by (simp add: js_delete_def keys_below_filter)

lemma keys_below_delete_all: "keys_below c m \<Longrightarrow> keys_below c (delete_all ks m)"
  by (simp add: delete_all_filter keys_below_filter)

lemma keyed_by_Nil: "keyed_by f []"
  by (simp add: keyed_by_def)

lemma keyed_by_set: "keyed_by f m \<Longrightarrow> f v = k \<Longrightarrow> keyed_by f (js_set k v m)"
  using set_js_set_subset [of k v m] by (auto simp: keyed_by_def list_all_iff)

lemma keyed_by_filter: "keyed_by f m \<Longrightarrow> keyed_by f (filter P m)"
  by (auto simp: keyed_by_def list_all_iff)

lemma keyed_by_delete: "keyed_by f m \<Longrightarrow> keyed_by f (js_delete k m)"
  by (simp add: js_delete_def keyed_by_filter)

lemma keyed_by_delete_all: "keyed_by f m \<Longrightarrow> keyed_by f (delete_all ks m)"
  by (simp add: delete_all_filter keyed_by_filter)

lemma keyed_by_get: "keyed_by f m \<Longrightarrow> js_get m k = Some v \<Longrightarrow> f v = k"
  using js_get_Some_mem [of m k v] by (fastforce simp: keyed_by_def list_all_iff)

lemma find_Some_values:
  "find P (js_values m) = Some v \<Longrightarrow> \<exists>k. (k, v) \<in> set m \<and> P v"
  by (induction m) (auto simp: js_values_def split: if_splits)

text \<open>Deleting the ids of the records that satisfy \<open>P\<close> removes exactly those records.\<close>

lemma delete_all_selected:
  assumes "keyed_by f m" and "distinct (js_keys m)"
  shows "delete_all (map f (filter P (js_values m))) m = filter (\<lambda>p. \<not> P (snd p)) m"
proof -
  have "fst p \<notin> set (map f (filter P (js_values m))) \<longleftrightarrow> \<not> P (snd p)" if "p \<in> set m" for p
  proof
    assume a: "fst p \<notin> set (map f (filter P (js_values m)))"
    show "\<not> P (snd p)"
    proof
      assume "P (snd p)"
      with that have "f (snd p) \<in> set (map f (filter P (js_values m)))"
        by (auto simp: js_values_def)
      moreover from assms(1) that have "f (snd p) = fst p"
        by (auto simp: keyed_by_def list_all_iff)
      ultimately show False using a by simp
    qed
  next
    assume np: "\<not> P (snd p)"
    show "fst p \<notin> set (map f (filter P (js_values m)))"
    proof
      assume "fst p \<in> set (map f (filter P (js_values m)))"
      then obtain q where q: "q \<in> set m" "P (snd q)" "f (snd q) = fst p"
        by (auto simp: js_values_def)
      from assms(1) q have "fst q = fst p"
        by (auto simp: keyed_by_def list_all_iff)
      with assms(2) q(1) that have "q = p"
        by (metis distinct_map inj_onD js_keys_def)
      with q(2) np show False by simp
    qed
  qed
  then show ?thesis
    by (simp add: delete_all_filter cong: filter_cong)
qed

section \<open>The store invariant\<close>

lemma js_get_Some_key: "js_get m k = Some v \<Longrightarrow> k \<in> set (js_keys m)"
  using js_get_None_iff [of m k] by auto

lemma inv_newMemStorage: "store_inv newMemStorage"
  by (simp add: store_inv_def newMemStorage_def keys_below_Nil keyed_by_Nil)

lemma inv_createUser: "store_inv s \<Longrightarrow> store_inv (fst (createUser s now d))"
  by (simp add: store_inv_def createUser_def Let_def keys_below_set_counter)

lemma inv_updateUser: "store_inv s \<Longrightarrow> updateUser s i d = Inr (s', u) \<Longrightarrow> store_inv s'"
  by (auto simp: store_inv_def updateUser_def getUser_def Let_def keys_below_set_present
      js_get_Some_key split: option.splits)

lemma inv_createMemory: "store_inv s \<Longrightarrow> store_inv (fst (createMemory s now d))"
  by (simp add: store_inv_def createMemory_def Let_def keys_below_set_counter)

lemma inv_updateMemory: "store_inv s \<Longrightarrow> updateMemory s i d = Inr (s', u) \<Longrightarrow> store_inv s'"
  by (auto simp: store_inv_def updateMemory_def getMemory_def Let_def keys_below_set_present
      js_get_Some_key split: option.splits)

lemma inv_deleteMemory: "store_inv s \<Longrightarrow> store_inv (deleteMemory s i)"
  by (simp add: store_inv_def deleteMemory_def Let_def keys_below_delete keys_below_delete_all
      keyed_by_delete_all)

lemma inv_createNotification: "store_inv s \<Longrightarrow> store_inv (fst (createNotification s now d))"
  by (simp add: store_inv_def createNotification_def Let_def keys_below_set_counter keyed_by_set)

lemma inv_markNotificationAsRead:
  "store_inv s \<Longrightarrow> markNotificationAsRead s i = Inr (s', n) \<Longrightarrow> store_inv s'"
  by (auto simp: store_inv_def markNotificationAsRead_def getNotification_def Let_def
      keys_below_set_present js_get_Some_key keyed_by_set keyed_by_get split: option.splits)

lemma inv_createFriendRequest:
  assumes "store_inv s" and "createFriendRequest s now u f = Inr (s', r)"
  shows "store_inv s'"
proof -
  let ?r = "\<lparr> friend_id = friendIdCounter s, friend_userId = u, friend_friendId = f,
     friend_status = ''pending'', friend_createdAt = now \<rparr>"
  let ?s1 = "s\<lparr> friendIdCounter := friendIdCounter s + 1,
     friends := js_set (friendIdCounter s) ?r (friends s) \<rparr>"
  have "store_inv ?s1"
    using assms(1) by (simp add: store_inv_def keys_below_set_counter keyed_by_set)
  then have "store_inv (fst (createNotification ?s1 now
      \<lparr> in_userId = f, in_type = ''friend_request'',
        in_content = ''You have a new friend request'', in_read = False,
        in_relatedId = Some (friendIdCounter s) \<rparr>))"
    by (rule inv_createNotification)
  with assms(2) show ?thesis
    by (auto simp: createFriendRequest_def Let_def split: if_splits)
qed

lemma inv_acceptFriendRequest:
  assumes "store_inv s" and "acceptFriendRequest s now i = Inr (s', r)"
  shows "store_inv s'"
proof -
  from assms(2) obtain req where req: "js_get (friends s) i = Some req"
    by (auto simp: acceptFriendRequest_def getFriendRequest_def split: option.splits)
  let ?s1 = "s\<lparr> friends := js_set i (req\<lparr> friend_status := ''accepted'' \<rparr>) (friends s) \<rparr>"
  have "friend_id req = i"
    using assms(1) req by (auto simp: store_inv_def dest: keyed_by_get)
  then have "store_inv ?s1"
    using assms(1) req
    by (simp add: store_inv_def keys_below_set_present js_get_Some_key keyed_by_set)
  then have "store_inv (fst (createNotification ?s1 now
      \<lparr> in_userId = friend_userId req, in_type = ''friend_accepted'',
        in_content = ''Your friend request was accepted'', in_read = False,
        in_relatedId = Some i \<rparr>))"
    by (rule inv_createNotification)
  with assms(2) req show ?thesis
    by (auto simp: acceptFriendRequest_def getFriendRequest_def Let_def)
qed

lemma inv_rejectFriendRequest:
  assumes "store_inv s" and "rejectFriendRequest s i = Inr s'"
  shows "store_inv s'"
proof -
  from assms(2) obtain req where req: "js_get (friends s) i = Some req"
    by (auto simp: rejectFriendRequest_def getFriendRequest_def split: option.splits)
  have "friend_id req = i"
    using assms(1) req by (auto simp: store_inv_def dest: keyed_by_get)
  then have "store_inv (s\<lparr> friends := js_set i (req\<lparr> friend_status := ''rejected'' \<rparr>) (friends s) \<rparr>)"
    using assms(1) req
    by (simp add: store_inv_def keys_below_set_present js_get_Some_key keyed_by_set)
  with assms(2) req show ?thesis
    by (auto simp: rejectFriendRequest_def getFriendRequest_def Let_def)
qed

lemma inv_removeFriend: "store_inv s \<Longrightarrow> store_inv (removeFriend s u f)"
  by (simp add: store_inv_def removeFriend_def Let_def keys_below_delete_all keyed_by_delete_all)

lemma inv_createGroup: "store_inv s \<Longrightarrow> store_inv (fst (createGroup s now d))"
  by (simp add: store_inv_def createGroup_def Let_def keys_below_set_counter)

lemma inv_updateGroup: "store_inv s \<Longrightarrow> updateGroup s i d = Inr (s', g) \<Longrightarrow> store_inv s'"
  by (auto simp: store_inv_def updateGroup_def getGroup_def Let_def keys_below_set_present
      js_get_Some_key split: option.splits)

lemma inv_deleteGroup: "store_inv s \<Longrightarrow> store_inv (deleteGroup s i)"
  by (simp add: store_inv_def deleteGroup_def Let_def keys_below_delete keys_below_delete_all
      keyed_by_delete_all)

lemma inv_addGroupMember: "store_inv s \<Longrightarrow> store_inv (fst (addGroupMember s now d))"
  by (simp add: store_inv_def addGroupMember_def Let_def keys_below_set_counter keyed_by_set)

lemma membership_entry:
  assumes "keyed_by member_id (groupMembers s)"
    and "getGroupMembership s g u = Some mb"
  shows "(member_id mb, mb) \<in> set (groupMembers s) \<and> member_groupId mb = g \<and> member_userId mb = u"
proof -
  from assms(2) obtain k where k: "(k, mb) \<in> set (groupMembers s)"
    and p: "member_groupId mb = g \<and> member_userId mb = u"
    unfolding getGroupMembership_def by (blast dest: find_Some_values)
  from assms(1) k have "member_id mb = k"
    by (auto simp: keyed_by_def list_all_iff)
  with k p show ?thesis by simp
qed

lemma inv_updateGroupMember:
  assumes "store_inv s" and "updateGroupMember s g u role = Inr (s', mb')"
  shows "store_inv s'"
proof -
  from assms(2) obtain mb where mb: "getGroupMembership s g u = Some mb"
    by (auto simp: updateGroupMember_def split: option.splits)
  from assms(1) have k: "keyed_by member_id (groupMembers s)" by (simp add: store_inv_def)
  from membership_entry [OF k mb] have "member_id mb \<in> set (js_keys (groupMembers s))"
    by (force simp: js_keys_def)
  then have "store_inv (s\<lparr> groupMembers :=
      js_set (member_id mb) (mb\<lparr> member_role := role \<rparr>) (groupMembers s) \<rparr>)"
    using assms(1) by (simp add: store_inv_def keys_below_set_present keyed_by_set)
  with assms(2) mb show ?thesis
    by (auto simp: updateGroupMember_def Let_def)
qed

lemma inv_removeGroupMember: "store_inv s \<Longrightarrow> store_inv (removeGroupMember s g u)"
  by (auto simp: store_inv_def removeGroupMember_def keys_below_delete keyed_by_delete
      split: option.splits)

lemma inv_createComment: "store_inv s \<Longrightarrow> store_inv (fst (createComment s now d))"
proof -
  assume w: "store_inv s"
  let ?c = "\<lparr> comment_id = commentIdCounter s, comment_memoryId = ic_memoryId d,
     comment_userId = ic_userId d, comment_content = ic_content d, comment_createdAt = now \<rparr>"
  let ?s1 = "s\<lparr> commentIdCounter := commentIdCounter s + 1,
     comments := js_set (commentIdCounter s) ?c (comments s) \<rparr>"
  have w1: "store_inv ?s1"
    using w by (simp add: store_inv_def keys_below_set_counter keyed_by_set)
  have "store_inv (fst (createNotification ?s1 now n))" for n
    using w1 by (rule inv_createNotification)
  with w1 show ?thesis
    by (simp add: createComment_def Let_def split: option.splits)
qed

lemma inv_deleteComment: "store_inv s \<Longrightarrow> store_inv (deleteComment s i)"
  by (simp add: store_inv_def deleteComment_def keys_below_delete keyed_by_delete)

lemma inv_after: "store_inv s \<Longrightarrow> store_inv (after c s)"
proof (cases c)
  case (UpdateUser i d)
  assume "store_inv s" then show ?thesis using UpdateUser
    by (cases "updateUser s i d") (auto simp: after_def dest: inv_updateUser)
next
  case (UpdateMemory i d)
  assume "store_inv s" then show ?thesis using UpdateMemory
    by (cases "updateMemory s i d") (auto simp: after_def dest: inv_updateMemory)
next
  case (CreateFriendRequest now u f)
  assume "store_inv s" then show ?thesis using CreateFriendRequest
    by (cases "createFriendRequest s now u f") (auto simp: after_def dest: inv_createFriendRequest)
next
  case (AcceptFriendRequest now r)
  assume "store_inv s" then show ?thesis using AcceptFriendRequest
    by (cases "acceptFriendRequest s now r") (auto simp: after_def dest: inv_acceptFriendRequest)
next
  case (RejectFriendRequest r)
  assume "store_inv s" then show ?thesis using RejectFriendRequest
    by (cases "rejectFriendRequest s r") (auto simp: after_def dest: inv_rejectFriendRequest)
next
  case (UpdateGroup i d)
  assume "store_inv s" then show ?thesis using UpdateGroup
    by (cases "updateGroup s i d") (auto simp: after_def dest: inv_updateGroup)
next
  case (UpdateGroupMember g u r)
  assume "store_inv s" then show ?thesis using UpdateGroupMember
    by (cases "updateGroupMember s g u r") (auto simp: after_def dest: inv_updateGroupMember)
next
  case (MarkNotificationAsRead i)
  assume "store_inv s" then show ?thesis using MarkNotificationAsRead
    by (cases "markNotificationAsRead s i") (auto simp: after_def dest: inv_markNotificationAsRead)
qed (simp_all add: after_def inv_createUser inv_createMemory inv_deleteMemory inv_removeFriend
      inv_createGroup inv_deleteGroup inv_addGroupMember inv_removeGroupMember
      inv_createNotification inv_createComment inv_deleteComment)

lemma reachable_inv: "reachable s \<Longrightarrow> store_inv s"
  by (induction rule: reachable.induct) (simp_all add: inv_newMemStorage inv_after)

section \<open>Visible memories, friend requests and cascading deletion\<close>






lemma createNotification_fresh:
  assumes "keys_below (notificationIdCounter s) (notifications s)"
  shows "notifications (fst (createNotification s now d)) =
     notifications s @ [(notificationIdCounter s, snd (createNotification s now d))]"
  using keys_below_fresh [OF assms]
  by (simp add: createNotification_def Let_def js_set_fresh)

text \<open>
  Claim C2. If a friend record exists between \<open>u\<close> and \<open>f\<close> in either direction, whatever
  its status, \<^verbatim>\<open>createFriendRequest(u, f)\<close> throws "Friend request already exists" and the
  store is unchanged. Otherwise it adds exactly one friend record, pending, from \<open>u\<close> to \<open>f\<close>
  under a new id, and exactly one notification, addressed to \<open>f\<close>; the other maps are
  unchanged.
\<close>

theorem createFriendRequest_conflict_or_created:
  assumes "store_inv s"
  shows "if \<exists>r \<in> set (js_values (friends s)). between u f r
     then createFriendRequest s now u f = Inl (Error ''Friend request already exists'') \<and>
          after (CreateFriendRequest now u f) s = s
     else \<exists>s' r n. createFriendRequest s now u f = Inr (s', r) \<and>
          friend_userId r = u \<and> friend_friendId r = f \<and> friend_status r = ''pending'' \<and>
          friend_id r \<notin> set (js_keys (friends s)) \<and>
          friends s' = friends s @ [(friend_id r, r)] \<and>
          notification_userId n = f \<and>
          notification_id n \<notin> set (js_keys (notifications s)) \<and>
          notifications s' = notifications s @ [(notification_id n, n)] \<and>
          users s' = users s \<and> memories s' = memories s \<and> groups s' = groups s \<and>
          groupMembers s' = groupMembers s \<and> comments s' = comments s"
proof (cases "\<exists>r \<in> set (js_values (friends s)). between u f r")
  case True
  then have "filter (between u f) (js_values (friends s)) \<noteq> []"
    by (auto simp: filter_empty_conv)
  then have "createFriendRequest s now u f = Inl (Error ''Friend request already exists'')"
    by (simp add: createFriendRequest_def Let_def)
  with True show ?thesis by (simp add: after_def)
next
  case False
  then have e: "filter (between u f) (js_values (friends s)) = []"
    by (auto simp: filter_empty_conv)
  from assms have kf: "friendIdCounter s \<notin> set (js_keys (friends s))"
    and kn: "notificationIdCounter s \<notin> set (js_keys (notifications s))"
    by (auto simp: store_inv_def dest: keys_below_fresh)
  show ?thesis using False e kf kn
    by (simp add: createFriendRequest_def createNotification_def Let_def js_set_fresh)
qed

theorem createFriendRequest_conflict_or_created_witness:
  "store_inv example_store \<and>
   (\<exists>r \<in> set (js_values (friends example_store)). between 1 2 r) \<and>
   createFriendRequest example_store 200 1 2 = Inl (Error ''Friend request already exists'') \<and>
   \<not> (\<exists>r \<in> set (js_values (friends example_store)). between 2 3 r) \<and>
   (\<exists>s' r n. createFriendRequest example_store 200 2 3 = Inr (s', r) \<and>
      friend_status r = ''pending'' \<and>
      friends s' = friends example_store @ [(friend_id r, r)] \<and>
      notification_userId n = 3 \<and>
      notifications s' = notifications example_store @ [(notification_id n, n)])"
proof -
  have h: "store_inv example_store"
    by code_simp
  have c: "\<exists>r \<in> set (js_values (friends example_store)). between 1 2 r"
    by code_simp
  have d: "\<not> (\<exists>r \<in> set (js_values (friends example_store)). between 2 3 r)"
    by code_simp
  from createFriendRequest_conflict_or_created [OF h, of 1 2 200] c
  have a: "createFriendRequest example_store 200 1 2 = Inl (Error ''Friend request already exists'')"
    by simp
  from createFriendRequest_conflict_or_created [OF h, of 2 3 200] d
  have b: "\<exists>s' r n. createFriendRequest example_store 200 2 3 = Inr (s', r) \<and>
      friend_status r = ''pending'' \<and>
      friends s' = friends example_store @ [(friend_id r, r)] \<and>
      notification_userId n = 3 \<and>
      notifications s' = notifications example_store @ [(notification_id n, n)]"
    by (simp only: if_False) blast
  from h c d a b show ?thesis by blast
qed

text \<open>
  Claim C3. For an existing friend request \<open>r\<close>, \<^verbatim>\<open>acceptFriendRequest(r)\<close> stores the
  request with status "accepted", leaves every other friend record as it was, and adds exactly
  one notification, addressed to the requester (the \<open>userId\<close> of the request).
\<close>

theorem acceptFriendRequest_accepts_and_notifies:
  assumes "store_inv s" and "getFriendRequest s r = Some req"
  shows "\<exists>s' n. acceptFriendRequest s now r = Inr (s', req\<lparr> friend_status := ''accepted'' \<rparr>) \<and>
     getFriendRequest s' r = Some (req\<lparr> friend_status := ''accepted'' \<rparr>) \<and>
     (\<forall>k. k \<noteq> r \<longrightarrow> getFriendRequest s' k = getFriendRequest s k) \<and>
     js_keys (friends s') = js_keys (friends s) \<and>
     notification_userId n = friend_userId req \<and>
     notification_id n \<notin> set (js_keys (notifications s)) \<and>
     notifications s' = notifications s @ [(notification_id n, n)]"
proof -
  from assms(1) have kn: "notificationIdCounter s \<notin> set (js_keys (notifications s))"
    by (auto simp: store_inv_def dest: keys_below_fresh)
  from assms(2) have "r \<in> set (js_keys (friends s))"
    by (auto simp: getFriendRequest_def dest: js_get_Some_key)
  with assms(2) kn show ?thesis
    by (simp add: acceptFriendRequest_def createNotification_def getFriendRequest_def Let_def
        js_set_fresh js_get_set js_keys_set)
qed

theorem acceptFriendRequest_accepts_and_notifies_witness:
  "store_inv example_store \<and> getFriendRequest example_store 2 = Some example_request \<and>
   (\<exists>s' n. acceptFriendRequest example_store 200 2 =
        Inr (s', example_request\<lparr> friend_status := ''accepted'' \<rparr>) \<and>
      getFriendRequest s' 2 = Some (example_request\<lparr> friend_status := ''accepted'' \<rparr>) \<and>
      (\<forall>k. k \<noteq> 2 \<longrightarrow> getFriendRequest s' k = getFriendRequest example_store k) \<and>
      notification_userId n = 1 \<and>
      notifications s' = notifications example_store @ [(notification_id n, n)])"
proof -
  have h: "store_inv example_store"
    by code_simp
  have g: "getFriendRequest example_store 2 = Some example_request"
    by code_simp
  have u: "friend_userId example_request = 1"
    by (simp add: example_request_def)
  from acceptFriendRequest_accepts_and_notifies [OF h g, of 200] u h g show ?thesis
    by auto
qed

lemma deleteMemory_comments:
  assumes "store_inv s"
  shows "comments (deleteMemory s m) =
     filter (\<lambda>p. comment_memoryId (snd p) \<noteq> m) (comments s)"
proof -
  from assms have "keyed_by comment_id (comments s)" and "distinct (js_keys (comments s))"
    by (simp_all add: store_inv_def keys_below_def)
  then show ?thesis
    by (simp add: deleteMemory_def Let_def delete_all_selected)
qed

text \<open>
  Claim C4. After \<^verbatim>\<open>deleteMemory(m)\<close> no comment with \<open>memoryId = m\<close> remains,
  \<^verbatim>\<open>getMemory(m)\<close> finds nothing, so that \<^verbatim>\<open>GET /api/memories/:id\<close> answers 404 to an
  authenticated caller, and the comments of other memories are exactly those from before.
\<close>

theorem deleteMemory_cascades:
  assumes "store_inv s"
  shows "(\<forall>c \<in> set (js_values (comments (deleteMemory s m))). comment_memoryId c \<noteq> m) \<and>
     getMemory (deleteMemory s m) m = None \<and>
     get_api_memories_id (deleteMemory s m) (Some caller) m = Status 404 \<and>
     comments (deleteMemory s m) =
       filter (\<lambda>p. comment_memoryId (snd p) \<noteq> m) (comments s)"
proof -
  have g: "getMemory (deleteMemory s m) m = None"
    by (simp add: getMemory_def deleteMemory_def Let_def js_get_delete)
  show ?thesis
    using g by (auto simp: deleteMemory_comments [OF assms] js_values_def get_api_memories_id_def)
qed

theorem deleteMemory_cascades_witness:
  "store_inv example_store \<and>
   (\<exists>c \<in> set (js_values (comments example_store)). comment_memoryId c = 2) \<and>
   \<not> (\<exists>c \<in> set (js_values (comments (deleteMemory example_store 2))). comment_memoryId c = 2) \<and>
   getMemory (deleteMemory example_store 2) 2 = None \<and>
   get_api_memories_id (deleteMemory example_store 2) (Some 1) 2 = Status 404 \<and>
   comments (deleteMemory example_store 2) =
     filter (\<lambda>p. comment_memoryId (snd p) \<noteq> 2) (comments example_store)"
proof -
  have h: "store_inv example_store"
    by code_simp
  have c: "\<exists>c \<in> set (js_values (comments example_store)). comment_memoryId c = 2"
    by code_simp
  note t = deleteMemory_cascades [OF h, of 2 1]
  from t have n: "\<not> (\<exists>c \<in> set (js_values (comments (deleteMemory example_store 2))).
      comment_memoryId c = 2)"
    by blast
  from t h c n show ?thesis
    by (elim conjE, intro conjI) assumption+
qed

section \<open>A friend record blocks further requests\<close>

lemma js_set_present:
  "distinct (js_keys m) \<Longrightarrow> k \<in> set (js_keys m) \<Longrightarrow>
     js_set k v m = map (\<lambda>p. if fst p = k then (k, v) else p) m"
proof (induction m)
  case Nil
  then show ?case by (simp add: js_keys_def)
next
  case (Cons p ps)
  show ?case
  proof (cases "fst p = k")
    case True
    with Cons.prems(1) have "k \<notin> fst ` set ps"
      by (simp add: js_keys_def)
    then have "\<forall>q \<in> set ps. fst q \<noteq> k"
      by blast
    then have "map (\<lambda>q. if fst q = k then (k, v) else q) ps = ps"
      by (intro map_idI) auto
    with True show ?thesis by simp
  next
    case False
    with Cons show ?thesis by (simp add: js_keys_def)
  qed
qed

lemma between_sym: "between u f x = between f u x"
  by (auto simp: between_def)

lemma createFriendRequest_Inl_iff:
  "createFriendRequest s now u f = Inl (Error ''Friend request already exists'') \<longleftrightarrow>
     record_between s u f"
  by (auto simp: createFriendRequest_def record_between_def Let_def filter_empty_conv)

lemma status_change_keeps_between:
  assumes "distinct (js_keys (friends s))" and "js_get (friends s) r = Some req"
    and "friends s' = js_set r (req\<lparr> friend_status := st \<rparr>) (friends s)"
    and "record_between s u f"
  shows "record_between s' u f"
proof -
  from assms(4) obtain k x where x: "(k, x) \<in> set (friends s)" "between u f x"
    by (auto simp: record_between_def js_values_def)
  from assms(2) have r: "r \<in> set (js_keys (friends s))" by (rule js_get_Some_key)
  have eq: "friends s' = map (\<lambda>p. if fst p = r then (r, req\<lparr> friend_status := st \<rparr>) else p) (friends s)"
    using assms(3) js_set_present [OF assms(1) r] by simp
  show ?thesis
  proof (cases "k = r")
    case True
    from assms(1) have "map_of (friends s) k = Some x"
      using x(1) by (simp add: js_keys_def)
    with assms(2) True have "x = req" by (simp add: js_get_def)
    with x(2) have "between u f (req\<lparr> friend_status := st \<rparr>)" by (simp add: between_def)
    moreover have "(r, req\<lparr> friend_status := st \<rparr>) \<in> set (friends s')"
      using assms(3) by (simp add: js_set_mem)
    ultimately show ?thesis by (force simp: record_between_def js_values_def)
  next
    case False
    with x(1) have "(k, x) \<in> set (friends s')"
      unfolding eq by force
    with x(2) show ?thesis by (force simp: record_between_def js_values_def)
  qed
qed

lemma removeFriend_friends:
  assumes "store_inv s"
  shows "friends (removeFriend s a b) = filter (\<lambda>p. \<not> between a b (snd p)) (friends s)"
proof -
  from assms have "keyed_by friend_id (friends s)" and "distinct (js_keys (friends s))"
    by (simp_all add: store_inv_def keys_below_def)
  then show ?thesis
    by (simp add: removeFriend_def Let_def delete_all_selected)
qed

lemma removeFriend_clears: "store_inv s \<Longrightarrow> \<not> record_between (removeFriend s u f) u f"
  by (simp add: record_between_def removeFriend_friends js_values_def)

lemma removeFriend_other_pair:
  assumes "store_inv s" and "record_between s u f" and "(a, b) \<noteq> (u, f)" and "(a, b) \<noteq> (f, u)"
  shows "record_between (removeFriend s a b) u f"
proof -
  from assms(2) obtain p where p: "p \<in> set (friends s)" "between u f (snd p)"
    by (auto simp: record_between_def js_values_def)
  with assms(3,4) have "\<not> between a b (snd p)"
    by (auto simp: between_def)
  with p have "snd p \<in> set (js_values (friends (removeFriend s a b)))"
    by (simp add: removeFriend_friends [OF assms(1)] js_values_def)
  with p(2) show ?thesis
    unfolding record_between_def by blast
qed

lemma after_keeps_between:
  assumes "store_inv s" and "record_between s u f"
    and "c \<noteq> RemoveFriend u f" and "c \<noteq> RemoveFriend f u"
  shows "record_between (after c s) u f"
proof -
  from assms(1) have kb: "keys_below (friendIdCounter s) (friends s)"
    by (simp add: store_inv_def)
  from kb have d: "distinct (js_keys (friends s))" by (simp add: keys_below_def)
  from kb have fresh: "friendIdCounter s \<notin> set (js_keys (friends s))"
    by (rule keys_below_fresh)
  show ?thesis
  proof (cases c)
    case (CreateFriendRequest now a b)
    then show ?thesis using assms(2) fresh
      by (auto simp: after_def createFriendRequest_def createNotification_def Let_def
          record_between_def js_set_fresh js_values_def)
  next
    case (AcceptFriendRequest now r)
    show ?thesis
    proof (cases "js_get (friends s) r")
      case None
      then show ?thesis using AcceptFriendRequest assms(2)
        by (simp add: after_def acceptFriendRequest_def getFriendRequest_def)
    next
      case (Some req)
      have "friends (after c s) = js_set r (req\<lparr> friend_status := ''accepted'' \<rparr>) (friends s)"
        using AcceptFriendRequest Some
        by (simp add: after_def acceptFriendRequest_def getFriendRequest_def
            createNotification_def Let_def)
      from status_change_keeps_between [OF d Some this assms(2)] show ?thesis .
    qed
  next
    case (RejectFriendRequest r)
    show ?thesis
    proof (cases "js_get (friends s) r")
      case None
      then show ?thesis using RejectFriendRequest assms(2)
        by (simp add: after_def rejectFriendRequest_def getFriendRequest_def)
    next
      case (Some req)
      have "friends (after c s) = js_set r (req\<lparr> friend_status := ''rejected'' \<rparr>) (friends s)"
        using RejectFriendRequest Some
        by (simp add: after_def rejectFriendRequest_def getFriendRequest_def Let_def)
      from status_change_keeps_between [OF d Some this assms(2)] show ?thesis .
    qed
  next
    case (RemoveFriend a b)
    with assms(3,4) have "(a, b) \<noteq> (u, f)" "(a, b) \<noteq> (f, u)" by auto
    from removeFriend_other_pair [OF assms(1,2) this] RemoveFriend show ?thesis
      by (simp add: after_def)
  next
    case (UpdateUser i d)
    then show ?thesis using assms(2)
      by (auto simp: after_def updateUser_def Let_def record_between_def split: option.splits)
  next
    case (UpdateMemory i d)
    then show ?thesis using assms(2)
      by (auto simp: after_def updateMemory_def Let_def record_between_def split: option.splits)
  next
    case (UpdateGroup i d)
    then show ?thesis using assms(2)
      by (auto simp: after_def updateGroup_def Let_def record_between_def split: option.splits)
  next
    case (UpdateGroupMember g m r)
    then show ?thesis using assms(2)
      by (auto simp: after_def updateGroupMember_def Let_def record_between_def split: option.splits)
  next
    case (MarkNotificationAsRead i)
    then show ?thesis using assms(2)
      by (auto simp: after_def markNotificationAsRead_def Let_def record_between_def
          split: option.splits)
  next
    case (CreateComment now d)
    then show ?thesis using assms(2)
      by (auto simp: after_def createComment_def createNotification_def Let_def
          record_between_def split: option.splits)
  next
    case (RemoveGroupMember g m)
    then show ?thesis using assms(2)
      by (auto simp: after_def removeGroupMember_def record_between_def split: option.splits)
  qed (use assms(2) in \<open>simp_all add: after_def record_between_def createUser_def
      createMemory_def deleteMemory_def createGroup_def deleteGroup_def addGroupMember_def
      createNotification_def deleteComment_def Let_def\<close>)
qed

lemma run_keeps_between:
  assumes "store_inv s" and "record_between s u f"
    and "RemoveFriend u f \<notin> set cs" and "RemoveFriend f u \<notin> set cs"
  shows "record_between (run cs s) u f"
  using assms
proof (induction cs arbitrary: s)
  case Nil
  then show ?case by (simp add: run_def)
next
  case (Cons c cs)
  from Cons.prems have "store_inv (after c s)" and "record_between (after c s) u f"
    by (auto intro: inv_after after_keeps_between)
  with Cons.prems have "record_between (run cs (after c s)) u f"
    by (intro Cons.IH) auto
  then show ?case by (simp add: run_def)
qed

lemma inv_run: "store_inv s \<Longrightarrow> store_inv (run cs s)"
proof (induction cs arbitrary: s)
  case Nil
  then show ?case by (simp add: run_def)
next
  case (Cons c cs)
  from Cons.prems have "store_inv (after c s)" by (rule inv_after)
  then have "store_inv (run cs (after c s))" by (rule Cons.IH)
  then show ?case by (simp add: run_def)
qed

lemma createFriendRequest_Inr_iff:
  "(\<exists>s' x. createFriendRequest s now u f = Inr (s', x)) \<longleftrightarrow> \<not> record_between s u f"
  by (auto simp: createFriendRequest_def record_between_def Let_def filter_empty_conv)

lemma rejectFriendRequest_effect:
  assumes "getFriendRequest s r = Some req"
  shows "\<exists>s1. rejectFriendRequest s r = Inr s1 \<and>
     friends s1 = js_set r (req\<lparr> friend_status := ''rejected'' \<rparr>) (friends s) \<and>
     getFriendRequest s1 r = Some (req\<lparr> friend_status := ''rejected'' \<rparr>) \<and>
     js_keys (friends s1) = js_keys (friends s) \<and>
     (\<forall>k. k \<noteq> r \<longrightarrow> getFriendRequest s1 k = getFriendRequest s k) \<and>
     notifications s1 = notifications s"
proof -
  from assms have "r \<in> set (js_keys (friends s))"
    by (auto simp: getFriendRequest_def dest: js_get_Some_key)
  with assms show ?thesis
    by (simp add: rejectFriendRequest_def getFriendRequest_def Let_def js_get_set js_keys_set)
qed

text \<open>
  Claim C10. \<^verbatim>\<open>rejectFriendRequest(r)\<close> keeps the record, with status "rejected", and creates
  no notification. After any further storage calls other than \<^verbatim>\<open>removeFriend\<close> for that
  pair, \<^verbatim>\<open>createFriendRequest\<close> between the two users fails in both directions with the
  duplicate-request error; once \<^verbatim>\<open>removeFriend\<close> has run for the pair, a new request
  succeeds.
\<close>

theorem rejected_request_blocks_new_requests:
  assumes "store_inv s" and "getFriendRequest s r = Some req"
    and "RemoveFriend (friend_userId req) (friend_friendId req) \<notin> set cs"
    and "RemoveFriend (friend_friendId req) (friend_userId req) \<notin> set cs"
  shows "\<exists>s1. rejectFriendRequest s r = Inr s1 \<and>
     getFriendRequest s1 r = Some (req\<lparr> friend_status := ''rejected'' \<rparr>) \<and>
     js_keys (friends s1) = js_keys (friends s) \<and>
     (\<forall>k. k \<noteq> r \<longrightarrow> getFriendRequest s1 k = getFriendRequest s k) \<and>
     notifications s1 = notifications s \<and>
     createFriendRequest (run cs s1) now (friend_userId req) (friend_friendId req) =
       Inl (Error ''Friend request already exists'') \<and>
     createFriendRequest (run cs s1) now (friend_friendId req) (friend_userId req) =
       Inl (Error ''Friend request already exists'') \<and>
     (\<exists>s' x. createFriendRequest
        (removeFriend (run cs s1) (friend_userId req) (friend_friendId req)) now
        (friend_userId req) (friend_friendId req) = Inr (s', x))"
proof -
  let ?u = "friend_userId req" and ?f = "friend_friendId req"
  from rejectFriendRequest_effect [OF assms(2)] obtain s1 where
    s1: "rejectFriendRequest s r = Inr s1"
    and fr: "friends s1 = js_set r (req\<lparr> friend_status := ''rejected'' \<rparr>) (friends s)"
    and rest: "getFriendRequest s1 r = Some (req\<lparr> friend_status := ''rejected'' \<rparr>)"
      "js_keys (friends s1) = js_keys (friends s)"
      "\<forall>k. k \<noteq> r \<longrightarrow> getFriendRequest s1 k = getFriendRequest s k"
      "notifications s1 = notifications s"
    by blast
  from assms(1) s1 have i1: "store_inv s1" by (rule inv_rejectFriendRequest)
  have "(r, req\<lparr> friend_status := ''rejected'' \<rparr>) \<in> set (friends s1)"
    unfolding fr by (rule js_set_mem)
  then have "req\<lparr> friend_status := ''rejected'' \<rparr> \<in> set (js_values (friends s1))"
    by (force simp: js_values_def)
  moreover have "between ?u ?f (req\<lparr> friend_status := ''rejected'' \<rparr>)"
    by (simp add: between_def)
  ultimately have b1: "record_between s1 ?u ?f"
    unfolding record_between_def by blast
  from run_keeps_between [OF i1 b1 assms(3,4)] have b2: "record_between (run cs s1) ?u ?f" .
  then have b2': "record_between (run cs s1) ?f ?u"
    by (simp add: record_between_def between_sym)
  from i1 have i2: "store_inv (run cs s1)" by (rule inv_run)
  have c1: "createFriendRequest (run cs s1) now ?u ?f = Inl (Error ''Friend request already exists'')"
    using b2 by (simp add: createFriendRequest_Inl_iff)
  have c2: "createFriendRequest (run cs s1) now ?f ?u = Inl (Error ''Friend request already exists'')"
    using b2' by (simp add: createFriendRequest_Inl_iff)
  have c3: "\<exists>s' x. createFriendRequest (removeFriend (run cs s1) ?u ?f) now ?u ?f = Inr (s', x)"
    using removeFriend_clears [OF i2] by (simp add: createFriendRequest_Inr_iff)
  from s1 rest c1 c2 c3 show ?thesis by blast
qed

theorem rejected_request_blocks_new_requests_witness:
  "store_inv example_store \<and> getFriendRequest example_store 2 = Some example_request \<and>
   (\<exists>s1. rejectFriendRequest example_store 2 = Inr s1 \<and>
      getFriendRequest s1 2 = Some (example_request\<lparr> friend_status := ''rejected'' \<rparr>) \<and>
      notifications s1 = notifications example_store \<and>
      createFriendRequest (run [RemoveFriend 1 2, AcceptFriendRequest 201 2] s1) 202 1 3 =
        Inl (Error ''Friend request already exists'') \<and>
      createFriendRequest (run [RemoveFriend 1 2, AcceptFriendRequest 201 2] s1) 202 3 1 =
        Inl (Error ''Friend request already exists'') \<and>
      (\<exists>s' x. createFriendRequest
         (removeFriend (run [RemoveFriend 1 2, AcceptFriendRequest 201 2] s1) 1 3) 202 1 3 =
         Inr (s', x)))"
proof -
  have h: "store_inv example_store"
    by code_simp
  have g: "getFriendRequest example_store 2 = Some example_request"
    by code_simp
  have u: "friend_userId example_request = 1" "friend_friendId example_request = 3"
    by (simp_all add: example_request_def)
  have n1: "RemoveFriend (friend_userId example_request) (friend_friendId example_request)
      \<notin> set [RemoveFriend 1 2, AcceptFriendRequest 201 2]"
    by (simp add: u)
  have n2: "RemoveFriend (friend_friendId example_request) (friend_userId example_request)
      \<notin> set [RemoveFriend 1 2, AcceptFriendRequest 201 2]"
    by (simp add: u)
  from rejected_request_blocks_new_requests [OF h g n1 n2, of 202] h g show ?thesis
    unfolding u by blast
qed

lemma js_delete_absent: "k \<notin> set (js_keys m) \<Longrightarrow> js_delete k m = m"
  by (induction m) (auto simp: js_delete_def js_keys_def)

text \<open>
  Claim C5, as the storage behaves. On an id that is not in the store the updating methods
  (\<^verbatim>\<open>updateUser\<close>, \<^verbatim>\<open>updateMemory\<close>, \<^verbatim>\<open>updateGroup\<close>, \<^verbatim>\<open>updateGroupMember\<close>,
  \<^verbatim>\<open>acceptFriendRequest\<close>, \<^verbatim>\<open>rejectFriendRequest\<close>, \<^verbatim>\<open>markNotificationAsRead\<close>) throw
  their "not found" error and leave the store unchanged. The deleting methods do not throw:
  \<^verbatim>\<open>deleteComment\<close> and \<^verbatim>\<open>removeGroupMember\<close> return with the store unchanged;
  \<^verbatim>\<open>deleteMemory\<close> and \<^verbatim>\<open>deleteGroup\<close> return with the parent map unchanged, and with
  the whole store unchanged when no comment (group member) refers to the id.
\<close>

theorem missing_id_updates_fail_deletes_return:
  "(getUser s i = None \<longrightarrow>
      updateUser s i ud = Inl (Error ''User not found'') \<and> after (UpdateUser i ud) s = s) \<and>
   (getMemory s i = None \<longrightarrow>
      updateMemory s i md = Inl (Error ''Memory not found'') \<and> after (UpdateMemory i md) s = s) \<and>
   (getGroup s i = None \<longrightarrow>
      updateGroup s i gd = Inl (Error ''Group not found'') \<and> after (UpdateGroup i gd) s = s) \<and>
   (getGroupMembership s g u = None \<longrightarrow>
      updateGroupMember s g u role = Inl (Error ''Group membership not found'') \<and>
      after (UpdateGroupMember g u role) s = s) \<and>
   (getFriendRequest s i = None \<longrightarrow>
      acceptFriendRequest s now i = Inl (Error ''Friend request not found'') \<and>
      after (AcceptFriendRequest now i) s = s \<and>
      rejectFriendRequest s i = Inl (Error ''Friend request not found'') \<and>
      after (RejectFriendRequest i) s = s) \<and>
   (getNotification s i = None \<longrightarrow>
      markNotificationAsRead s i = Inl (Error ''Notification not found'') \<and>
      after (MarkNotificationAsRead i) s = s) \<and>
   (getComment s i = None \<longrightarrow> perform (DeleteComment i) s = Inr s) \<and>
   (getGroupMembership s g u = None \<longrightarrow> perform (RemoveGroupMember g u) s = Inr s) \<and>
   (getMemory s i = None \<longrightarrow>
      perform (DeleteMemory i) s = Inr (deleteMemory s i) \<and>
      memories (deleteMemory s i) = memories s \<and>
      ((\<forall>c \<in> set (js_values (comments s)). comment_memoryId c \<noteq> i) \<longrightarrow> deleteMemory s i = s)) \<and>
   (getGroup s i = None \<longrightarrow>
      perform (DeleteGroup i) s = Inr (deleteGroup s i) \<and>
      groups (deleteGroup s i) = groups s \<and>
      ((\<forall>m \<in> set (js_values (groupMembers s)). member_groupId m \<noteq> i) \<longrightarrow> deleteGroup s i = s))"
proof (intro conjI impI)
  assume "getComment s i = None"
  then show "perform (DeleteComment i) s = Inr s"
    by (simp add: getComment_def deleteComment_def js_get_None_iff js_delete_absent)
next
  assume "getMemory s i = None"
  then show "memories (deleteMemory s i) = memories s"
    by (simp add: getMemory_def deleteMemory_def Let_def js_get_None_iff js_delete_absent)
next
  assume a: "getMemory s i = None" "\<forall>c \<in> set (js_values (comments s)). comment_memoryId c \<noteq> i"
  from a(2) have "filter (\<lambda>comment. comment_memoryId comment = i) (js_values (comments s)) = []"
    by (auto simp: filter_empty_conv)
  with a(1) show "deleteMemory s i = s"
    by (simp add: getMemory_def deleteMemory_def Let_def js_get_None_iff js_delete_absent
        delete_all_def)
next
  assume "getGroup s i = None"
  then show "groups (deleteGroup s i) = groups s"
    by (simp add: getGroup_def deleteGroup_def Let_def js_get_None_iff js_delete_absent)
next
  assume a: "getGroup s i = None" "\<forall>m \<in> set (js_values (groupMembers s)). member_groupId m \<noteq> i"
  from a(2) have "filter (\<lambda>member. member_groupId member = i) (js_values (groupMembers s)) = []"
    by (auto simp: filter_empty_conv)
  with a(1) show "deleteGroup s i = s"
    by (simp add: getGroup_def deleteGroup_def Let_def js_get_None_iff js_delete_absent
        delete_all_def)
qed (simp_all add: after_def updateUser_def updateMemory_def updateGroup_def
    updateGroupMember_def acceptFriendRequest_def rejectFriendRequest_def
    markNotificationAsRead_def removeGroupMember_def)

theorem missing_id_updates_fail_deletes_return_witness:
  "getUser example_store 99 = None \<and>
   updateUser example_store 99 empty_user_patch = Inl (Error ''User not found'') \<and>
   getMemory example_store 99 = None \<and>
   updateMemory example_store 99 empty_memory_patch = Inl (Error ''Memory not found'') \<and>
   getGroup example_store 99 = None \<and>
   updateGroup example_store 99 empty_group_patch = Inl (Error ''Group not found'') \<and>
   getGroupMembership example_store 98 97 = None \<and>
   updateGroupMember example_store 98 97 ''admin'' = Inl (Error ''Group membership not found'') \<and>
   getFriendRequest example_store 99 = None \<and>
   acceptFriendRequest example_store 200 99 = Inl (Error ''Friend request not found'') \<and>
   rejectFriendRequest example_store 99 = Inl (Error ''Friend request not found'') \<and>
   getNotification example_store 99 = None \<and>
   markNotificationAsRead example_store 99 = Inl (Error ''Notification not found'') \<and>
   getComment example_store 99 = None \<and>
   perform (DeleteComment 99) example_store = Inr example_store \<and>
   perform (RemoveGroupMember 98 97) example_store = Inr example_store \<and>
   \<not> (\<exists>c \<in> set (js_values (comments example_store)). comment_memoryId c = 99) \<and>
   perform (DeleteMemory 99) example_store = Inr example_store \<and>
   \<not> (\<exists>m \<in> set (js_values (groupMembers example_store)). member_groupId m = 99) \<and>
   perform (DeleteGroup 99) example_store = Inr example_store"
proof -
  have h: "getUser example_store 99 = None" "getMemory example_store 99 = None"
    "getGroup example_store 99 = None" "getGroupMembership example_store 98 97 = None"
    "getFriendRequest example_store 99 = None" "getNotification example_store 99 = None"
    "getComment example_store 99 = None"
    "\<forall>c \<in> set (js_values (comments example_store)). comment_memoryId c \<noteq> 99"
    "\<forall>m \<in> set (js_values (groupMembers example_store)). member_groupId m \<noteq> 99"
    by code_simp+
  from missing_id_updates_fail_deletes_return [of example_store 99 empty_user_patch
      empty_memory_patch empty_group_patch 98 97 "''admin''" 200] h
  show ?thesis
    by simp
qed

theorem missing_id_delete_counterexample:
  "getMemory newMemStorage 1 = None \<and>
   perform (DeleteMemory 1) newMemStorage = Inr newMemStorage \<and>
   getGroup newMemStorage 1 = None \<and>
   perform (DeleteGroup 1) newMemStorage = Inr newMemStorage \<and>
   getComment newMemStorage 1 = None \<and>
   perform (DeleteComment 1) newMemStorage = Inr newMemStorage \<and>
   getGroupMembership newMemStorage 1 1 = None \<and>
   perform (RemoveGroupMember 1 1) newMemStorage = Inr newMemStorage"
  by (simp add: newMemStorage_def getMemory_def getGroup_def getComment_def
      getGroupMembership_def js_get_def js_values_def js_delete_def delete_all_def
      deleteMemory_def deleteGroup_def deleteComment_def removeGroupMember_def)

lemma createGroup_adds_no_member: "groupMembers (fst (createGroup s now d)) = groupMembers s"
  by (simp add: createGroup_def Let_def)

text \<open>
  Claim C6. When an authenticated user \<open>u\<close> creates a group through \<^verbatim>\<open>POST /api/groups\<close>
  with a valid body, the handler answers 201 and the store it leaves holds the new group,
  created by \<open>u\<close>, and a group member record for that group with user \<open>u\<close> and role "admin".
\<close>

theorem post_api_groups_creator_is_admin:
  "\<exists>s' grp. post_api_groups s now (Some u) (Some d) = (s', Status 201) \<and>
     getGroup s' (groupIdCounter s) = Some grp \<and>
     group_id grp = groupIdCounter s \<and> group_createdBy grp = u \<and>
     (\<exists>mb \<in> set (js_values (groupMembers s')).
        member_groupId mb = groupIdCounter s \<and> member_userId mb = u \<and>
        member_role mb = ''admin'')"
proof -
  let ?mb = "\<lparr> member_id = groupMemberIdCounter s, member_groupId = groupIdCounter s,
     member_userId = u, member_role = ''admin'', member_joinedAt = now \<rparr>"
  have "(groupMemberIdCounter s, ?mb) \<in> set (js_set (groupMemberIdCounter s) ?mb (groupMembers s))"
    by (rule js_set_mem)
  then have "?mb \<in> set (js_values (js_set (groupMemberIdCounter s) ?mb (groupMembers s)))"
    by (force simp: js_values_def)
  then have "\<exists>mb \<in> set (js_values (js_set (groupMemberIdCounter s) ?mb (groupMembers s))).
      member_groupId mb = groupIdCounter s \<and> member_userId mb = u \<and>
      member_role mb = ''admin''"
    by (rule rev_bexI) simp
  then show ?thesis
    by (simp add: post_api_groups_def createGroup_def addGroupMember_def Let_def getGroup_def
        js_get_set)
qed

theorem post_api_groups_creator_is_admin_witness:
  "\<exists>s' grp. post_api_groups newMemStorage 5 (Some 7) (Some example_group) = (s', Status 201) \<and>
     getGroup s' 1 = Some grp \<and> group_id grp = 1 \<and> group_createdBy grp = 7 \<and>
     (\<exists>mb \<in> set (js_values (groupMembers s')).
        member_groupId mb = 1 \<and> member_userId mb = 7 \<and> member_role mb = ''admin'')"
proof -
  have "groupIdCounter newMemStorage = 1"
    by (simp add: newMemStorage_def)
  with post_api_groups_creator_is_admin [of newMemStorage 5 7 example_group] show ?thesis
    by simp
qed

lemma getUserByUsername_None_iff:
  "getUserByUsername s n = None \<longleftrightarrow> n \<notin> set (map user_username (getAllUsers s))"
  by (auto simp: getUserByUsername_def getAllUsers_def find_None_iff)

text \<open>
  Claim C7, as the storage behaves. \<^verbatim>\<open>createUser\<close> never fails and makes no username check:
  in a store that satisfies the storage invariant (every reachable store does) it adds the
  new user, with the username given, as a new entry under the current value of the id counter.
  If the usernames in the store were pairwise distinct and \<^verbatim>\<open>getUserByUsername\<close> finds no
  user with the new name, the usernames are pairwise distinct afterwards.
\<close>

theorem createUser_unchecked_unique_after_lookup:
  assumes "store_inv s"
  shows "\<exists>s' user. createUser s now d = (s', user) \<and>
     user_id user = userIdCounter s \<and> user_username user = iu_username d \<and>
     users s' = users s @ [(userIdCounter s, user)] \<and>
     (distinct (map user_username (getAllUsers s)) \<and> getUserByUsername s (iu_username d) = None
        \<longrightarrow> distinct (map user_username (getAllUsers s')))"
proof -
  from assms have "userIdCounter s \<notin> set (js_keys (users s))"
    by (auto simp: store_inv_def dest: keys_below_fresh)
  then show ?thesis
    by (auto simp: createUser_def Let_def js_set_fresh getUserByUsername_None_iff
        getAllUsers_def js_values_def)
qed

theorem createUser_unchecked_unique_after_lookup_witness:
  "store_inv (run [CreateUser 1 alice] newMemStorage) \<and>
   distinct (map user_username (getAllUsers (run [CreateUser 1 alice] newMemStorage))) \<and>
   getUserByUsername (run [CreateUser 1 alice] newMemStorage) (iu_username bob) = None \<and>
   (\<exists>s' user. createUser (run [CreateUser 1 alice] newMemStorage) 2 bob = (s', user) \<and>
      user_id user = 2 \<and> user_username user = ''bob'' \<and>
      distinct (map user_username (getAllUsers s')))"
proof -
  have h: "store_inv (run [CreateUser 1 alice] newMemStorage)"
    by code_simp
  have d: "distinct (map user_username (getAllUsers (run [CreateUser 1 alice] newMemStorage)))"
    by code_simp
  have g: "getUserByUsername (run [CreateUser 1 alice] newMemStorage) (iu_username bob) = None"
    by code_simp
  have c: "userIdCounter (run [CreateUser 1 alice] newMemStorage) = 2"
    by code_simp
  have n: "iu_username bob = ''bob''"
    by (simp add: bob_def)
  from createUser_unchecked_unique_after_lookup [OF h, of 2 bob] d g h show ?thesis
    unfolding c n by blast
qed

theorem createUser_duplicate_username_counterexample:
  "map user_username (getAllUsers (run [CreateUser 1 alice, CreateUser 2 alice] newMemStorage))
     = [''alice'', ''alice''] \<and>
   map user_id (getAllUsers (run [CreateUser 1 alice, CreateUser 2 alice] newMemStorage))
     = [1, 2]"
  by code_simp

section \<open>The calendar grid\<close>

lemma daysInMonth_bounds: "28 \<le> daysInMonth y m \<and> daysInMonth y m \<le> 31"
  by (simp add: daysInMonth_def)

lemma monthStart_0: "monthStart y 0 = 0"
  by (simp add: monthStart_def)

lemma monthStart_step: "0 \<le> m \<Longrightarrow> monthStart y (m + 1) = monthStart y m + daysInMonth y m"
  by (simp add: monthStart_def upto_rec2)

lemma monthStart_11: "monthStart y 11 = 334 + (if isLeapYear y then 1 else 0)"
proof -
  have "[0..10::int] = [0, 1, 2, 3, 4, 5, 6, 7, 8, 9, 10]"
    by code_simp
  then show ?thesis
    by (simp add: monthStart_def daysInMonth_def)
qed

lemma div_step:
  fixes a n :: int
  assumes "0 < n"
  shows "(a + 1) div n = a div n + (if (a + 1) mod n = 0 then 1 else 0)"
proof (cases "a mod n = n - 1")
  case True
  have "a + 1 = n * (a div n) + (a mod n + 1)" by simp
  also have "\<dots> = n * (a div n) + n" using True by simp
  also have "\<dots> = n * (a div n + 1) + 0" by (simp add: algebra_simps)
  finally have e: "a + 1 = n * (a div n + 1) + 0" .
  have "(a + 1) div n = a div n + 1"
    using assms by (intro int_div_pos_eq [OF e]) simp_all
  moreover have "(a + 1) mod n = 0"
    using assms by (intro int_mod_pos_eq [OF e]) simp_all
  ultimately show ?thesis by simp
next
  case False
  have r: "0 \<le> a mod n" "a mod n < n" using assms by simp_all
  with False have r1: "0 \<le> a mod n + 1" "a mod n + 1 < n" by simp_all
  have e: "a + 1 = n * (a div n) + (a mod n + 1)" by simp
  have "(a + 1) div n = a div n"
    by (rule int_div_pos_eq [OF e r1])
  moreover have "(a + 1) mod n = a mod n + 1"
    by (rule int_mod_pos_eq [OF e r1])
  ultimately show ?thesis using r by simp
qed

lemma dayFromYear_step:
  "dayFromYear (y + 1) = dayFromYear y + 365 + (if isLeapYear y then 1 else 0)"
proof -
  define i4 i100 i400 l :: int where "i4 = (if y mod 4 = 0 then 1 else 0)"
    and "i100 = (if y mod 100 = 0 then 1 else 0)"
    and "i400 = (if y mod 400 = 0 then 1 else 0)"
    and "l = (if isLeapYear y then 1 else 0)"
  have a4: "(y + 1 - 1969) div 4 = (y - 1969) div 4 + i4"
  proof -
    have "(y - 1969 + 1) mod 4 = (y + 4 * (- 492)) mod 4" by simp
    also have "\<dots> = y mod 4" by (rule mod_mult_self2)
    finally show ?thesis using div_step [of 4 "y - 1969"] by (simp add: algebra_simps i4_def)
  qed
  have a100: "(y + 1 - 1901) div 100 = (y - 1901) div 100 + i100"
  proof -
    have "(y - 1901 + 1) mod 100 = (y + 100 * (- 19)) mod 100" by simp
    also have "\<dots> = y mod 100" by (rule mod_mult_self2)
    finally show ?thesis using div_step [of 100 "y - 1901"] by (simp add: algebra_simps i100_def)
  qed
  have a400: "(y + 1 - 1601) div 400 = (y - 1601) div 400 + i400"
  proof -
    have "(y - 1601 + 1) mod 400 = (y + 400 * (- 4)) mod 400" by simp
    also have "\<dots> = y mod 400" by (rule mod_mult_self2)
    finally show ?thesis using div_step [of 400 "y - 1601"] by (simp add: algebra_simps i400_def)
  qed
  have d1: "y mod 100 = 0" if "y mod 400 = 0"
  proof -
    from that have "400 dvd y" by (simp add: mod_eq_0_iff_dvd)
    moreover have "(100::int) dvd 400" by simp
    ultimately have "100 dvd y" by (rule dvd_trans [rotated])
    then show ?thesis by (simp add: mod_eq_0_iff_dvd)
  qed
  have d2: "y mod 4 = 0" if "y mod 100 = 0"
  proof -
    from that have "100 dvd y" by (simp add: mod_eq_0_iff_dvd)
    moreover have "(4::int) dvd 100" by simp
    ultimately have "4 dvd y" by (rule dvd_trans [rotated])
    then show ?thesis by (simp add: mod_eq_0_iff_dvd)
  qed
  have L: "i4 - i100 + i400 = l"
    unfolding i4_def i100_def i400_def l_def isLeapYear_def
    using d1 d2 by (cases "y mod 400 = 0"; cases "y mod 100 = 0"; cases "y mod 4 = 0") simp_all
  define A B C where "A = (y - 1969) div 4" and "B = (y - 1901) div 100"
    and "C = (y - 1601) div 400"
  have "dayFromYear (y + 1) = dayFromYear y + 365 + l"
    unfolding dayFromYear_def a4 a100 a400 A_def [symmetric] B_def [symmetric] C_def [symmetric]
    using L by (simp add: algebra_simps)
  then show ?thesis by (simp add: l_def)
qed

lemma monthStart_values:
  "monthStart y 1 = 31"
  "monthStart y 2 = 59 + (if isLeapYear y then 1 else 0)"
  "monthStart y 3 = 90 + (if isLeapYear y then 1 else 0)"
  "monthStart y 4 = 120 + (if isLeapYear y then 1 else 0)"
  "monthStart y 5 = 151 + (if isLeapYear y then 1 else 0)"
  "monthStart y 6 = 181 + (if isLeapYear y then 1 else 0)"
  "monthStart y 7 = 212 + (if isLeapYear y then 1 else 0)"
  "monthStart y 8 = 243 + (if isLeapYear y then 1 else 0)"
  "monthStart y 9 = 273 + (if isLeapYear y then 1 else 0)"
  "monthStart y 10 = 304 + (if isLeapYear y then 1 else 0)"
proof -
  show s1: "monthStart y 1 = 31"
    using monthStart_step [of 0 y] by (simp add: monthStart_0 daysInMonth_def)
  show s2: "monthStart y 2 = 59 + (if isLeapYear y then 1 else 0)"
    using monthStart_step [of 1 y] by (simp add: s1 daysInMonth_def)
  show s3: "monthStart y 3 = 90 + (if isLeapYear y then 1 else 0)"
    using monthStart_step [of 2 y] by (simp add: s2 daysInMonth_def)
  show s4: "monthStart y 4 = 120 + (if isLeapYear y then 1 else 0)"
    using monthStart_step [of 3 y] by (simp add: s3 daysInMonth_def)
  show s5: "monthStart y 5 = 151 + (if isLeapYear y then 1 else 0)"
    using monthStart_step [of 4 y] by (simp add: s4 daysInMonth_def)
  show s6: "monthStart y 6 = 181 + (if isLeapYear y then 1 else 0)"
    using monthStart_step [of 5 y] by (simp add: s5 daysInMonth_def)
  show s7: "monthStart y 7 = 212 + (if isLeapYear y then 1 else 0)"
    using monthStart_step [of 6 y] by (simp add: s6 daysInMonth_def)
  show s8: "monthStart y 8 = 243 + (if isLeapYear y then 1 else 0)"
    using monthStart_step [of 7 y] by (simp add: s7 daysInMonth_def)
  show s9: "monthStart y 9 = 273 + (if isLeapYear y then 1 else 0)"
    using monthStart_step [of 8 y] by (simp add: s8 daysInMonth_def)
  show "monthStart y 10 = 304 + (if isLeapYear y then 1 else 0)"
    using monthStart_step [of 9 y] by (simp add: s9 daysInMonth_def)
qed

lemma monthStart_bounds:
  assumes "0 \<le> m" and "m \<le> 11"
  shows "0 \<le> monthStart y m \<and> monthStart y m \<le> 335"
proof -
  from assms have "m = 0 \<or> m = 1 \<or> m = 2 \<or> m = 3 \<or> m = 4 \<or> m = 5 \<or> m = 6 \<or> m = 7 \<or>
      m = 8 \<or> m = 9 \<or> m = 10 \<or> m = 11"
    by presburger
  then show ?thesis
    by (elim disjE) (simp_all add: monthStart_0 monthStart_values monthStart_11)
qed

lemma dayFromYear_mono_nat: "dayFromYear y \<le> dayFromYear (y + int n)"
proof (induction n)
  case 0
  then show ?case by simp
next
  case (Suc n)
  have "dayFromYear (y + int n + 1) = dayFromYear (y + int n) + 365 +
      (if isLeapYear (y + int n) then 1 else 0)"
    by (rule dayFromYear_step)
  then have "dayFromYear (y + int n) \<le> dayFromYear (y + int (Suc n))"
    by (simp add: algebra_simps)
  with Suc show ?case by linarith
qed

lemma dayFromYear_mono: "y \<le> z \<Longrightarrow> dayFromYear y \<le> dayFromYear z"
  using dayFromYear_mono_nat [of y "nat (z - y)"] by simp

lemma dayNumber_civil: "dayNumber (civil y m k) = dayFromYear y + monthStart y m + (k - 1)"
  by (simp add: dayNumber_def)

lemma next_month_boundary:
  assumes "0 \<le> m" and "m \<le> 11"
  shows "dayFromYear (y + (m + 1) div 12) + monthStart (y + (m + 1) div 12) ((m + 1) mod 12) =
     dayFromYear y + monthStart y m + daysInMonth y m"
proof (cases "m = 11")
  case True
  then show ?thesis
    by (simp add: monthStart_0 monthStart_11 dayFromYear_step daysInMonth_def)
next
  case False
  with assms have "(m + 1) div 12 = 0" "(m + 1) mod 12 = m + 1"
    by simp_all
  with assms(1) show ?thesis
    by (simp add: monthStart_step)
qed

lemma prev_month_boundary:
  assumes "0 \<le> m" and "m \<le> 11"
  shows "dayFromYear (y + (m - 1) div 12) + monthStart (y + (m - 1) div 12) ((m - 1) mod 12) +
       daysInMonth (y + (m - 1) div 12) ((m - 1) mod 12) =
     dayFromYear y + monthStart y m"
proof (cases "m = 0")
  case True
  have "dayFromYear (y - 1 + 1) = dayFromYear (y - 1) + 365 + (if isLeapYear (y - 1) then 1 else 0)"
    by (rule dayFromYear_step)
  with True show ?thesis
    by (simp add: monthStart_0 monthStart_11 daysInMonth_def)
next
  case False
  with assms have e: "(m - 1) div 12 = 0" "(m - 1) mod 12 = m - 1" and p: "0 \<le> m - 1"
    by simp_all
  from monthStart_step [OF p, of y] show ?thesis
    by (simp add: e)
qed

lemma nextDay_within: "k < daysInMonth y m \<Longrightarrow> nextDay (civil y m k) = civil y m (k + 1)"
  by (simp add: nextDay_def)

lemma days_from_within:
  "int n \<le> daysInMonth y m - k + 1 \<Longrightarrow>
     days_from n (civil y m k) = map (civil y m) [k..k + int n - 1]"
proof (induction n arbitrary: k)
  case 0
  then show ?case by simp
next
  case (Suc n)
  show ?case
  proof (cases n)
    case 0
    then show ?thesis by simp
  next
    case (Suc n')
    with Suc.prems have lt: "k < daysInMonth y m" by simp
    from Suc.prems have "int n \<le> daysInMonth y m - (k + 1) + 1" by simp
    then have "days_from n (civil y m (k + 1)) = map (civil y m) [k + 1..k + 1 + int n - 1]"
      by (rule Suc.IH)
    moreover have "[k..k + int (Suc n) - 1] = k # [k + 1..k + 1 + int n - 1]"
      by (simp add: upto_rec1)
    ultimately show ?thesis
      by (simp add: nextDay_within [OF lt])
  qed
qed

lemma funpow_nextDay_within:
  "k + int n \<le> daysInMonth y m \<Longrightarrow> (nextDay ^^ n) (civil y m k) = civil y m (k + int n)"
proof (induction n)
  case 0
  then show ?case by simp
next
  case (Suc n)
  then have "(nextDay ^^ n) (civil y m k) = civil y m (k + int n)" by simp
  moreover from Suc.prems have "k + int n < daysInMonth y m" by simp
  ultimately show ?case
    by (simp add: nextDay_within algebra_simps)
qed

lemma addDays_within:
  assumes "0 \<le> j" and "1 + j \<le> daysInMonth y m"
  shows "addDays (civil y m 1) j = civil y m (1 + j)"
  using assms funpow_nextDay_within [of 1 "nat j" y m] by (simp add: addDays_def)

lemma makeDay_within:
  assumes "0 \<le> m" and "m \<le> 11" and "1 \<le> t" and "t \<le> daysInMonth y m"
  shows "makeDay y m t = civil y m t"
proof -
  from assms(1,2) have "m div 12 = 0" "m mod 12 = m" by simp_all
  moreover from assms(3,4) have "addDays (civil y m 1) (t - 1) = civil y m (1 + (t - 1))"
    by (intro addDays_within) simp_all
  ultimately show ?thesis by (simp add: makeDay_def)
qed

text \<open>Day 0 of a month is the last day of the month before it.\<close>

lemma makeDay_day0:
  "makeDay y M 0 = civil (y + (M - 1) div 12) ((M - 1) mod 12)
     (daysInMonth (y + (M - 1) div 12) ((M - 1) mod 12))"
proof -
  define q r where "q = M div 12" and "r = M mod 12"
  have M: "M = 12 * q + r" and r: "0 \<le> r" "r < 12"
    by (simp_all add: q_def r_def)
  have md: "makeDay y M 0 = prevDay (civil (y + q) r 1)"
    by (simp add: makeDay_def addDays_def q_def r_def)
  show ?thesis
  proof (cases "r = 0")
    case True
    have e: "M - 1 = 12 * (q - 1) + 11" using M True by simp
    have "(M - 1) div 12 = q - 1"
      by (rule int_div_pos_eq [OF e]) simp_all
    moreover have "(M - 1) mod 12 = 11"
      by (rule int_mod_pos_eq [OF e]) simp_all
    ultimately show ?thesis
      using True by (simp add: md prevDay_def daysInMonth_def)
  next
    case False
    have e: "M - 1 = 12 * q + (r - 1)" using M by simp
    from False r have b: "0 \<le> r - 1" "r - 1 < 12" by simp_all
    have "(M - 1) div 12 = q"
      by (rule int_div_pos_eq [OF e b])
    moreover have "(M - 1) mod 12 = r - 1"
      by (rule int_mod_pos_eq [OF e b])
    ultimately show ?thesis
      using False r by (simp add: md prevDay_def)
  qed
qed

lemma startOfMonth_civil:
  assumes "0 \<le> m" and "m \<le> 11"
  shows "startOfMonth (Some (civil y m k)) = timeClip (civil y m 1)"
  using assms daysInMonth_bounds [of y m]
  by (simp add: startOfMonth_def setDate_def makeDay_within)

lemma endOfMonth_civil:
  assumes "0 \<le> m" and "m \<le> 11"
  shows "endOfMonth (Some (civil y m k)) = timeClip (civil y m (daysInMonth y m))"
  using assms by (simp add: endOfMonth_def makeDay_day0)

lemma addMonths_first:
  assumes "n \<noteq> 0"
  shows "addMonths (Some (civil y m 1)) n =
     (if inRange (civil (y + (m + n) div 12) ((m + n) mod 12)
           (daysInMonth (y + (m + n) div 12) ((m + n) mod 12)))
      then timeClip (civil (y + (m + n) div 12) ((m + n) mod 12) 1) else None)"
proof -
  let ?y = "y + (m + n) div 12" and ?m = "(m + n) mod 12"
  have b: "28 \<le> daysInMonth ?y ?m" using daysInMonth_bounds [of ?y ?m] by simp
  have md: "makeDay ?y ?m 1 = civil ?y ?m 1"
    using b by (intro makeDay_within) simp_all
  show ?thesis
    using assms b by (simp add: addMonths_def makeDay_day0 timeClip_def md)
qed

lemma eachDayOfInterval_within:
  assumes "a \<le> b" and "b \<le> daysInMonth y m"
  shows "eachDayOfInterval throwing (Some (civil y m a)) (Some (civil y m b)) =
     Inr (map (civil y m) [a..b])"
proof -
  from assms(1) have n: "int (nat (b - a + 1)) = b - a + 1" by simp
  have "int (nat (b - a + 1)) \<le> daysInMonth y m - a + 1"
    using assms by simp
  from days_from_within [OF this] assms(1) show ?thesis
    by (simp add: eachDayOfInterval_def dayNumber_civil n)
qed

lemma eachDayOfInterval_invalid:
  "eachDayOfInterval throwing None e =
     (if throwing then Inl (Error ''Invalid interval'') else Inr [])"
  by (simp add: eachDayOfInterval_def)

lemma inRange_between:
  assumes "inRange a" and "inRange b" and "dayNumber a \<le> dayNumber x"
    and "dayNumber x \<le> dayNumber b"
  shows "inRange x"
  using assms by (simp add: inRange_def)

lemma inRange_century:
  assumes "0 \<le> c" and "c \<le> 99" and "0 \<le> m" and "m \<le> 11" and "1 \<le> j" and "j \<le> 31"
  shows "inRange (civil (1900 + c) m j)"
proof -
  have "dayFromYear 1900 \<le> dayFromYear (1900 + c)"
    using assms(1) by (intro dayFromYear_mono) simp
  moreover have "dayFromYear (1900 + c) \<le> dayFromYear 1999"
    using assms(2) by (intro dayFromYear_mono) simp
  moreover have "dayFromYear 1900 = - 25567" "dayFromYear 1999 = 10592"
    by (simp_all add: dayFromYear_def)
  moreover note monthStart_bounds [OF assms(3,4), of "1900 + c"]
  ultimately show ?thesis
    using assms(5,6) by (simp add: inRange_def dayNumber_civil)
qed

text \<open>The previous month, with its year and month as parameters.\<close>

lemma previousMonthDays_param:
  assumes f: "0 < f" "f \<le> 6" and r: "0 \<le> pm" "pm \<le> 11"
    and sub: "subMonths (Some (civil y m 1)) 1 =
       (if inRange (civil py pm (daysInMonth py pm)) then timeClip (civil py pm 1) else None)"
    and pb: "dayFromYear py + monthStart py pm + daysInMonth py pm = dayFromYear y + monthStart y m"
    and lo: "inRange (civil py pm 1)" and hi: "inRange (civil y m 1)"
  shows "previousMonthDays_of throwing (Some (civil y m 1)) (Some f) =
     Inr (map (civil py pm) [daysInMonth py pm - f + 1..daysInMonth py pm])"
proof -
  let ?dim = "daysInMonth py pm"
  have b: "28 \<le> ?dim" "?dim \<le> 31" using daysInMonth_bounds [of py pm] by simp_all
  have in_prev: "inRange (civil py pm j)" if "1 \<le> j" "j \<le> ?dim" for j
  proof (rule inRange_between [OF lo hi])
    show "dayNumber (civil py pm 1) \<le> dayNumber (civil py pm j)"
      using that by (simp add: dayNumber_civil)
    show "dayNumber (civil py pm j) \<le> dayNumber (civil y m 1)"
      using that pb by (simp add: dayNumber_civil)
  qed
  have i1: "inRange (civil py pm ?dim)" using b by (intro in_prev) simp_all
  have pmv: "subMonths (Some (civil y m 1)) 1 = Some (civil py pm 1)"
    using i1 lo by (simp add: sub timeClip_def)
  have pe: "endOfMonth (Some (civil py pm 1)) = Some (civil py pm ?dim)"
    using i1 by (simp add: endOfMonth_civil [OF r] timeClip_def)
  have mk: "makeDay py pm (?dim - f + 1) = civil py pm (?dim - f + 1)"
    using r b f by (intro makeDay_within) simp_all
  have i2: "inRange (civil py pm (?dim - f + 1))"
    using b f by (intro in_prev) simp_all
  have sd: "setDate (Some (civil py pm ?dim)) (Some (?dim - f + 1)) =
      Some (civil py pm (?dim - f + 1))"
    using i2 by (simp add: setDate_def timeClip_def mk)
  have ed: "eachDayOfInterval throwing (Some (civil py pm (?dim - f + 1))) (Some (civil py pm ?dim)) =
      Inr (map (civil py pm) [?dim - f + 1..?dim])"
    using f by (intro eachDayOfInterval_within) simp_all
  show ?thesis
    using f by (simp add: previousMonthDays_of_def Let_def pmv pe getDate_def sd ed)
qed

lemma subMonths_first:
  "subMonths (Some (civil y m 1)) 1 =
     (if inRange (civil (y + (m - 1) div 12) ((m - 1) mod 12)
           (daysInMonth (y + (m - 1) div 12) ((m - 1) mod 12)))
      then timeClip (civil (y + (m - 1) div 12) ((m - 1) mod 12) 1) else None)"
  using addMonths_first [of "- 1" y m] by (simp add: subMonths_def)

lemma previousMonthDays_explicit:
  assumes "0 \<le> f" and "f \<le> 6" and "0 \<le> m" and "m \<le> 11"
    and "inRange (civil (y + (m - 1) div 12) ((m - 1) mod 12) 1)"
    and "inRange (civil y m 1)"
  shows "previousMonthDays_of throwing (Some (civil y m 1)) (Some f) =
     Inr (map (civil (y + (m - 1) div 12) ((m - 1) mod 12))
       [daysInMonth (y + (m - 1) div 12) ((m - 1) mod 12) - f + 1
         ..daysInMonth (y + (m - 1) div 12) ((m - 1) mod 12)])"
proof (cases "f = 0")
  case True
  then show ?thesis by (simp add: previousMonthDays_of_def)
next
  case False
  with assms(1) have f: "0 < f" by simp
  have r: "0 \<le> (m - 1) mod 12" "(m - 1) mod 12 \<le> 11" by simp_all
  show ?thesis
    by (rule previousMonthDays_param [OF f assms(2) r subMonths_first
          prev_month_boundary [OF assms(3,4)] assms(5,6)])
qed

text \<open>The next month, likewise.\<close>

lemma nextMonthDays_param:
  assumes t: "1 \<le> t" "t \<le> 28" and r: "0 \<le> nm" "nm \<le> 11"
    and add: "addMonths (Some (civil y m 1)) 1 =
       (if inRange (civil ny nm (daysInMonth ny nm)) then timeClip (civil ny nm 1) else None)"
    and nb: "dayFromYear ny + monthStart ny nm = dayFromYear y + monthStart y m + daysInMonth y m"
    and lo: "inRange (civil y m 1)" and hi: "inRange (civil ny nm (daysInMonth ny nm))"
  shows "nextMonthDays_of throwing (Some (civil y m 1)) t =
     Inr (map (civil (constructorYear ny) nm) [1..t])"
proof -
  let ?c = "constructorYear ny"
  let ?dim = "daysInMonth ny nm"
  have b: "28 \<le> ?dim" "?dim \<le> 31" using daysInMonth_bounds [of ny nm] by simp_all
  have bc: "28 \<le> daysInMonth ?c nm" using daysInMonth_bounds [of ?c nm] by simp
  have bm: "28 \<le> daysInMonth y m" using daysInMonth_bounds [of y m] by simp
  have in_next: "inRange (civil ny nm j)" if "1 \<le> j" "j \<le> ?dim" for j
  proof (rule inRange_between [OF lo hi])
    show "dayNumber (civil y m 1) \<le> dayNumber (civil ny nm j)"
      using that nb bm by (simp add: dayNumber_civil)
    show "dayNumber (civil ny nm j) \<le> dayNumber (civil ny nm ?dim)"
      using that by (simp add: dayNumber_civil)
  qed
  have in_c: "inRange (civil ?c nm j)" if "1 \<le> j" "j \<le> 28" for j
  proof (cases "0 \<le> ny \<and> ny \<le> 99")
    case True
    then have "inRange (civil (1900 + ny) nm j)"
      using r that by (intro inRange_century) simp_all
    with True show ?thesis by (simp add: constructorYear_def)
  next
    case False
    then have "?c = ny" by (auto simp: constructorYear_def)
    moreover have "inRange (civil ny nm j)" using that b by (intro in_next) simp_all
    ultimately show ?thesis by simp
  qed
  have i1: "inRange (civil ny nm 1)" using b by (intro in_next) simp_all
  have nmv: "addMonths (Some (civil y m 1)) 1 = Some (civil ny nm 1)"
    using hi i1 by (simp add: add timeClip_def)
  have k1: "makeDay ?c nm 1 = civil ?c nm 1"
    using r bc by (intro makeDay_within) simp_all
  have kt: "makeDay ?c nm t = civil ?c nm t"
    using r bc t by (intro makeDay_within) simp_all
  have c1: "inRange (civil ?c nm 1)" by (intro in_c) simp_all
  have ct: "inRange (civil ?c nm t)" using t by (intro in_c) simp_all
  have s: "newDate (Some ny) (Some nm) (Some 1) = Some (civil ?c nm 1)"
    using c1 by (simp add: newDate_def timeClip_def k1)
  have e: "newDate (Some ny) (Some nm) (Some t) = Some (civil ?c nm t)"
    using ct by (simp add: newDate_def timeClip_def kt)
  have ed: "eachDayOfInterval throwing (Some (civil ?c nm 1)) (Some (civil ?c nm t)) =
      Inr (map (civil ?c nm) [1..t])"
    using t bc by (intro eachDayOfInterval_within) simp_all
  show ?thesis
    using t by (simp add: nextMonthDays_of_def Let_def nmv getFullYear_def getMonth_def s e ed)
qed

lemma nextMonthDays_explicit:
  assumes "0 \<le> m" and "m \<le> 11" and "1 \<le> t" and "t \<le> 28"
    and "inRange (civil y m 1)"
    and "inRange (civil (y + (m + 1) div 12) ((m + 1) mod 12)
           (daysInMonth (y + (m + 1) div 12) ((m + 1) mod 12)))"
  shows "nextMonthDays_of throwing (Some (civil y m 1)) t =
     Inr (map (civil (constructorYear (y + (m + 1) div 12)) ((m + 1) mod 12)) [1..t])"
proof -
  have r: "0 \<le> (m + 1) mod 12" "(m + 1) mod 12 \<le> 11" by simp_all
  have one: "(1::int) \<noteq> 0" by simp
  show ?thesis
    by (rule nextMonthDays_param [OF assms(3,4) r addMonths_first [OF one]
          next_month_boundary [OF assms(1,2)] assms(5,6)])
qed

lemma nextMonthDays_out_of_range:
  assumes "0 < t"
    and "\<not> inRange (civil (y + (m + 1) div 12) ((m + 1) mod 12)
           (daysInMonth (y + (m + 1) div 12) ((m + 1) mod 12)))"
  shows "nextMonthDays_of throwing (Some (civil y m 1)) t =
     (if throwing then Inl (Error ''Invalid interval'') else Inr [])"
proof -
  have one: "(1::int) \<noteq> 0" by simp
  have "addMonths (Some (civil y m 1)) 1 = None"
    using assms(2) by (simp only: addMonths_first [OF one] if_False)
  with assms(1) show ?thesis
    by (simp add: nextMonthDays_of_def Let_def getFullYear_def getMonth_def newDate_def
        eachDayOfInterval_invalid)
qed

lemma startOfMonth_valid:
  assumes "0 \<le> month d" and "month d \<le> 11"
  shows "startOfMonth (Some d) = timeClip (civil (year d) (month d) 1)"
  using assms by (cases d) (simp add: startOfMonth_civil)

lemma endOfMonth_valid:
  assumes "0 \<le> month d" and "month d \<le> 11"
  shows "endOfMonth (Some d) =
     timeClip (civil (year d) (month d) (daysInMonth (year d) (month d)))"
  using assms by (cases d) (simp add: endOfMonth_civil)

lemma getCalendarDays_explicit:
  assumes "valid_date d"
    and "inRange (civil (year d + (month d - 1) div 12) ((month d - 1) mod 12) 1)"
    and "inRange (civil (year d) (month d) (daysInMonth (year d) (month d)))"
  shows "getCalendarDays throwing (Some d) =
     (case nextMonthDays_of throwing (Some (civil (year d) (month d) 1))
        (42 - (dayNumber (civil (year d) (month d) 1) + 4) mod 7
            - daysInMonth (year d) (month d)) of
        Inl e \<Rightarrow> Inl e
      | Inr nextMonthDays \<Rightarrow>
          Inr (map (civil (year d + (month d - 1) div 12) ((month d - 1) mod 12))
            [daysInMonth (year d + (month d - 1) div 12) ((month d - 1) mod 12)
               - (dayNumber (civil (year d) (month d) 1) + 4) mod 7 + 1
             ..daysInMonth (year d + (month d - 1) div 12) ((month d - 1) mod 12)]
          @ map (civil (year d) (month d)) [1..daysInMonth (year d) (month d)]
          @ nextMonthDays))"
proof -
  let ?y = "year d" and ?m = "month d"
  from assms(1) have m: "0 \<le> ?m" "?m \<le> 11" by (simp_all add: valid_date_def)
  define f where "f = (dayNumber (civil ?y ?m 1) + 4) mod 7"
  define py pm where "py = ?y + (?m - 1) div 12" and "pm = (?m - 1) mod 12"
  let ?dim = "daysInMonth ?y ?m" and ?pdim = "daysInMonth py pm"
  have f: "0 \<le> f" "f \<le> 6" by (simp_all add: f_def)
  have b: "28 \<le> ?dim" "?dim \<le> 31" using daysInMonth_bounds [of ?y ?m] by simp_all
  have bp: "28 \<le> ?pdim" using daysInMonth_bounds [of py pm] by simp
  have pb: "dayFromYear py + monthStart py pm + ?pdim = dayFromYear ?y + monthStart ?y ?m"
    unfolding py_def pm_def using m by (rule prev_month_boundary)
  have lo: "inRange (civil py pm 1)"
    using assms(2) by (simp add: py_def pm_def)
  note iL = assms(3)
  have i1: "inRange (civil ?y ?m 1)"
  proof (rule inRange_between [OF lo iL])
    show "dayNumber (civil py pm 1) \<le> dayNumber (civil ?y ?m 1)"
      using pb bp by (simp add: dayNumber_civil)
    show "dayNumber (civil ?y ?m 1) \<le> dayNumber (civil ?y ?m ?dim)"
      using b by (simp add: dayNumber_civil)
  qed
  have st: "startOfMonth (Some d) = Some (civil ?y ?m 1)"
    using i1 by (simp add: startOfMonth_valid [OF m] timeClip_def)
  have en: "endOfMonth (Some d) = Some (civil ?y ?m ?dim)"
    using iL by (simp add: endOfMonth_valid [OF m] timeClip_def)
  have gd: "getDay (Some (civil ?y ?m 1)) = Some f"
    by (simp add: getDay_def f_def)
  have md: "eachDayOfInterval throwing (Some (civil ?y ?m 1)) (Some (civil ?y ?m ?dim)) =
      Inr (map (civil ?y ?m) [1..?dim])"
    using b by (intro eachDayOfInterval_within) simp_all
  have pd: "previousMonthDays_of throwing (Some (civil ?y ?m 1)) (Some f) =
     Inr (map (civil py pm) [?pdim - f + 1..?pdim])"
    unfolding py_def pm_def
    using f m lo i1 by (intro previousMonthDays_explicit) (simp_all add: py_def pm_def)
  have len: "42 - (int (length [?pdim - f + 1..?pdim]) + int (length [1..?dim])) = 42 - f - ?dim"
    using f b by simp
  have "getCalendarDays throwing (Some d) =
     (case nextMonthDays_of throwing (Some (civil ?y ?m 1)) (42 - f - ?dim) of
        Inl e \<Rightarrow> Inl e
      | Inr nextMonthDays \<Rightarrow>
          Inr (map (civil py pm) [?pdim - f + 1..?pdim] @ map (civil ?y ?m) [1..?dim]
            @ nextMonthDays))"
    unfolding getCalendarDays_def Let_def st en md sum.case gd pd length_map len ..
  then show ?thesis
    unfolding f_def py_def pm_def .
qed

lemma map_shift_upto: "map (\<lambda>j. c + j) [a..b] = [c + a..c + b]"
proof (induction "nat (b - a + 1)" arbitrary: a)
  case 0
  then show ?case by simp
next
  case (Suc n)
  then have le: "a \<le> b" by simp
  from Suc.hyps(2) have "n = nat (b - (a + 1) + 1)" by simp
  then have IH: "map (\<lambda>j. c + j) [a + 1..b] = [c + (a + 1)..c + b]"
    by (rule Suc.hyps(1))
  have "map (\<lambda>j. c + j) [a..b] = (c + a) # map (\<lambda>j. c + j) [a + 1..b]"
    by (subst upto_rec1 [OF le]) simp
  also have "\<dots> = (c + a) # [c + a + 1..c + b]"
    by (simp only: IH add.assoc)
  also have "\<dots> = [c + a..c + b]"
    using le by (subst (2) upto_rec1) simp_all
  finally show ?case .
qed

lemma upto_append:
  assumes "a \<le> b + 1" and "b \<le> c"
  shows "[a..c] = [a..b] @ [b + 1..c]"
proof (cases "a \<le> b")
  case True
  then show ?thesis using assms(2) by (rule upto_split2)
next
  case False
  with assms(1) have "a = b + 1" by simp
  then show ?thesis by simp
qed

lemma dayNumber_month_run:
  "map dayNumber (map (civil y m) [a..b]) =
     [dayFromYear y + monthStart y m + a - 1..dayFromYear y + monthStart y m + b - 1]"
proof -
  have "map dayNumber (map (civil y m) [a..b]) =
      map (\<lambda>j. (dayFromYear y + monthStart y m - 1) + j) [a..b]"
    by (simp add: dayNumber_civil comp_def algebra_simps)
  also have "\<dots> = [(dayFromYear y + monthStart y m - 1) + a..(dayFromYear y + monthStart y m - 1) + b]"
    by (rule map_shift_upto)
  finally show ?thesis by (simp add: algebra_simps)
qed

lemma prev_month_differs:
  fixes m :: int
  assumes "0 \<le> m" and "m \<le> 11"
  shows "(m - 1) mod 12 \<noteq> m"
proof (cases "m = 0")
  case True
  then show ?thesis by simp
next
  case False
  with assms have "(m - 1) mod 12 = m - 1" by (intro mod_pos_pos_trivial) simp_all
  then show ?thesis by simp
qed

lemma next_month_differs:
  fixes m :: int
  assumes "0 \<le> m" and "m \<le> 11"
  shows "(m + 1) mod 12 \<noteq> m"
proof (cases "m = 11")
  case True
  then show ?thesis by simp
next
  case False
  with assms have "(m + 1) mod 12 = m + 1" by (intro mod_pos_pos_trivial) simp_all
  then show ?thesis by simp
qed

lemma filter_other_month:
  "m' \<noteq> month d \<Longrightarrow> filter (same_month d) (map (civil y' m') js) = []"
  by (simp add: same_month_def filter_empty_conv)

lemma filter_this_month:
  "filter (same_month d) (map (civil (year d) (month d)) js) =
     map (civil (year d) (month d)) js"
  by (simp add: same_month_def filter_id_conv)

lemma century_start_later:
  assumes "0 \<le> c" and "c \<le> 99" and "0 \<le> m" and "m \<le> 11"
  shows "dayFromYear c + monthStart c m \<le> dayFromYear (1900 + c) + monthStart (1900 + c) m"
proof -
  have "dayFromYear c \<le> dayFromYear 99"
    using assms(2) by (rule dayFromYear_mono)
  moreover have "dayFromYear 1900 \<le> dayFromYear (1900 + c)"
    using assms(1) by (intro dayFromYear_mono) simp
  moreover have "dayFromYear 99 = - 683368" "dayFromYear 1900 = - 25567"
    by (simp_all add: dayFromYear_def)
  moreover note monthStart_bounds [OF assms(3,4), of c]
    monthStart_bounds [OF assms(3,4), of "1900 + c"]
  ultimately show ?thesis by linarith
qed

lemma constructorYear_start_later:
  assumes "0 \<le> m" and "m \<le> 11"
  shows "dayFromYear y + monthStart y m \<le>
     dayFromYear (constructorYear y) + monthStart (constructorYear y) m"
proof (cases "0 \<le> y \<and> y \<le> 99")
  case True
  with century_start_later [of y m] assms show ?thesis
    by (simp add: constructorYear_def)
next
  case False
  then have "constructorYear y = y" by (auto simp: constructorYear_def)
  then show ?thesis by simp
qed

lemma sorted_runs:
  assumes "map g xs = [a..b]" and "map g ys = [c..e]" and "b < (c::int)"
  shows "sorted_wrt (\<lambda>u v. g u < g v) (xs @ ys)"
proof -
  have "sorted_wrt (<) ([a..b] @ [c..e])"
    using assms(3) by (auto simp: sorted_wrt_append)
  then have "sorted_wrt (<) (map g (xs @ ys))"
    by (simp add: assms(1,2))
  then show ?thesis
    by (simp only: sorted_wrt_map)
qed

lemmas calendar_eval = valid_date_def daysInMonth_def isLeapYear_def inRange_def
  dayNumber_civil dayFromYear_def monthStart_0 monthStart_values monthStart_11

lemma neighbours_in_range_limits:
  "neighbours_in_range (civil 275760 6 31)" "\<not> neighbours_in_range (civil 275760 7 1)"
  "neighbours_in_range (civil (- 271821) 5 1)" "\<not> neighbours_in_range (civil (- 271821) 4 31)"
  by (simp_all add: neighbours_in_range_def calendar_eval)

lemma length_days_from: "length (days_from n d) = n"
  by (induction n arbitrary: d) simp_all

text \<open>
  Claim C9, as the code behaves. For every date \<open>d\<close> such that the first day of the month
  before and the last day of the month after the month of \<open>d\<close> lie within the range of
  \<^verbatim>\<open>Date\<close>, \<^verbatim>\<open>getCalendarDays(d)\<close> returns 42 dates in ascending order, the first of
  which is a Sunday (weekday 0), and the dates of the result that lie in the month of \<open>d\<close>
  are the days of that month, each exactly once. This holds for either behaviour of
  \<^verbatim>\<open>eachDayOfInterval\<close> on an invalid interval.
\<close>

theorem getCalendarDays_grid:
  assumes "neighbours_in_range d"
  shows "\<exists>ds. getCalendarDays throwing (Some d) = Inr ds \<and> length ds = 42 \<and>
     sorted_wrt (\<lambda>a b. dayNumber a < dayNumber b) ds \<and>
     getDay (Some (hd ds)) = Some 0 \<and>
     filter (same_month d) ds =
       map (civil (year d) (month d)) [1..daysInMonth (year d) (month d)]"
proof -
  let ?y = "year d" and ?m = "month d"
  from assms have v: "valid_date d" by (simp add: neighbours_in_range_def)
  then have m: "0 \<le> ?m" "?m \<le> 11" by (simp_all add: valid_date_def)
  define f where "f = (dayNumber (civil ?y ?m 1) + 4) mod 7"
  define py pm where "py = ?y + (?m - 1) div 12" and "pm = (?m - 1) mod 12"
  define ny nm where "ny = ?y + (?m + 1) div 12" and "nm = (?m + 1) mod 12"
  define c where "c = constructorYear ny"
  let ?dim = "daysInMonth ?y ?m" and ?pdim = "daysInMonth py pm" and ?ndim = "daysInMonth ny nm"
  let ?D = "dayFromYear ?y + monthStart ?y ?m"
  define t where "t = 42 - f - ?dim"
  let ?P = "map (civil py pm) [?pdim - f + 1..?pdim]"
  let ?M = "map (civil ?y ?m) [1..?dim]"
  let ?N = "map (civil c nm) [1..t]"
  let ?ds = "?P @ ?M @ ?N"
  have f: "0 \<le> f" "f \<le> 6" by (simp_all add: f_def)
  have b: "28 \<le> ?dim" "?dim \<le> 31" using daysInMonth_bounds [of ?y ?m] by simp_all
  have bp: "28 \<le> ?pdim" using daysInMonth_bounds [of py pm] by simp
  have bn: "28 \<le> ?ndim" using daysInMonth_bounds [of ny nm] by simp
  have t: "1 \<le> t" "t \<le> 28" using f b by (simp_all add: t_def)
  have rn: "0 \<le> nm" "nm \<le> 11" by (simp_all add: nm_def)
  have pb: "dayFromYear py + monthStart py pm + ?pdim = ?D"
    unfolding py_def pm_def using m by (rule prev_month_boundary)
  have nb: "dayFromYear ny + monthStart ny nm = ?D + ?dim"
    unfolding ny_def nm_def using m by (rule next_month_boundary)
  from assms have lo: "inRange (civil py pm 1)" and hi: "inRange (civil ny nm ?ndim)"
    by (simp_all add: neighbours_in_range_def py_def pm_def ny_def nm_def)
  have iL: "inRange (civil ?y ?m ?dim)"
  proof (rule inRange_between [OF lo hi])
    show "dayNumber (civil py pm 1) \<le> dayNumber (civil ?y ?m ?dim)"
      using pb bp b by (simp add: dayNumber_civil)
    show "dayNumber (civil ?y ?m ?dim) \<le> dayNumber (civil ny nm ?ndim)"
      using nb bn by (simp add: dayNumber_civil)
  qed
  have i1: "inRange (civil ?y ?m 1)"
  proof (rule inRange_between [OF lo hi])
    show "dayNumber (civil py pm 1) \<le> dayNumber (civil ?y ?m 1)"
      using pb bp by (simp add: dayNumber_civil)
    show "dayNumber (civil ?y ?m 1) \<le> dayNumber (civil ny nm ?ndim)"
      using nb bn b by (simp add: dayNumber_civil)
  qed
  have nx: "nextMonthDays_of throwing (Some (civil ?y ?m 1)) t = Inr ?N"
    unfolding c_def ny_def nm_def
    using m t i1 hi by (intro nextMonthDays_explicit) (simp_all add: ny_def nm_def)
  have "getCalendarDays throwing (Some d) =
     (case nextMonthDays_of throwing (Some (civil ?y ?m 1)) t of
        Inl e \<Rightarrow> Inl e
      | Inr nextMonthDays \<Rightarrow> Inr (?P @ ?M @ nextMonthDays))"
    unfolding t_def f_def py_def pm_def
    using v lo iL by (intro getCalendarDays_explicit) (simp_all add: py_def pm_def)
  then have g: "getCalendarDays throwing (Some d) = Inr ?ds"
    by (simp only: nx sum.case)
  have len: "length ?ds = 42"
    using f b by (simp add: t_def)
  have dP: "map dayNumber ?P = [?D - f..?D - 1]"
  proof -
    have "dayFromYear py + monthStart py pm + (?pdim - f + 1) - 1 = ?D - f"
      "dayFromYear py + monthStart py pm + ?pdim - 1 = ?D - 1"
      using pb by linarith+
    then show ?thesis by (simp only: dayNumber_month_run)
  qed
  have dM: "map dayNumber ?M = [?D..?D + ?dim - 1]"
  proof -
    have "?D + 1 - 1 = ?D" by simp
    then show ?thesis by (simp only: dayNumber_month_run)
  qed
  let ?C = "dayFromYear c + monthStart c nm"
  have dN: "map dayNumber ?N = [?C..?C + t - 1]"
  proof -
    have "?C + 1 - 1 = ?C" by simp
    then show ?thesis by (simp only: dayNumber_month_run)
  qed
  have later: "?D + ?dim \<le> ?C"
    using constructorYear_start_later [OF rn, of ny] nb by (simp add: c_def)
  have s1: "[?D - f..?D + ?dim - 1] = [?D - f..?D - 1] @ [?D - 1 + 1..?D + ?dim - 1]"
    using f b by (intro upto_append) linarith+
  have e1: "?D - 1 + 1 = ?D" by linarith
  have dPM: "map dayNumber (?P @ ?M) = [?D - f..?D + ?dim - 1]"
    unfolding map_append dP dM s1 [unfolded e1] ..
  have "sorted_wrt (\<lambda>a b. dayNumber a < dayNumber b) ((?P @ ?M) @ ?N)"
    using later by (intro sorted_runs [OF dPM dN]) linarith
  then have srt: "sorted_wrt (\<lambda>a b. dayNumber a < dayNumber b) ?ds"
    by (simp only: append_assoc)
  have neM: "?M \<noteq> []"
    using b by (simp add: upto_rec1)
  then have nePM: "?P @ ?M \<noteq> []" by simp
  have "hd ((?P @ ?M) @ ?N) = hd (?P @ ?M)"
    using nePM by (rule hd_append2)
  then have "hd ?ds = hd (?P @ ?M)"
    by (simp only: append_assoc)
  then have "dayNumber (hd ?ds) = hd (map dayNumber (?P @ ?M))"
    by (simp only: hd_map [OF nePM])
  also have "\<dots> = hd [?D - f..?D + ?dim - 1]"
    by (simp only: dPM)
  also have "\<dots> = ?D - f"
    using f b by (simp add: upto_rec1)
  finally have h: "dayNumber (hd ?ds) = ?D - f" .
  have "f = (?D + 4) mod 7"
    by (simp add: f_def dayNumber_civil)
  then have "?D - f + 4 = (?D + 4) - (?D + 4) mod 7"
    by linarith
  also have "\<dots> = 7 * ((?D + 4) div 7)"
    by (rule minus_mod_eq_mult_div)
  finally have z: "(?D - f + 4) mod 7 = 0"
    by simp
  have "getDay (Some (hd ?ds)) = Some ((dayNumber (hd ?ds) + 4) mod 7)"
    by (simp add: getDay_def)
  also have "\<dots> = Some ((?D - f + 4) mod 7)"
    by (simp only: h)
  finally have sun: "getDay (Some (hd ?ds)) = Some 0"
    using z by simp
  have pne: "pm \<noteq> ?m" unfolding pm_def using m by (rule prev_month_differs)
  have nne: "nm \<noteq> ?m" unfolding nm_def using m by (rule next_month_differs)
  have fl: "filter (same_month d) ?ds = ?M"
    unfolding filter_append filter_other_month [OF pne] filter_other_month [OF nne]
      filter_this_month
    by simp
  show ?thesis
    by (rule exI [of _ ?ds]) (intro conjI g len srt sun fl)
qed

theorem getCalendarDays_grid_witness:
  "neighbours_in_range (civil 2024 1 15) \<and>
   (\<exists>ds. getCalendarDays True (Some (civil 2024 1 15)) = Inr ds \<and> length ds = 42 \<and>
      sorted_wrt (\<lambda>a b. dayNumber a < dayNumber b) ds \<and>
      getDay (Some (hd ds)) = Some 0 \<and>
      filter (same_month (civil 2024 1 15)) ds = map (civil 2024 1) [1..29]) \<and>
   neighbours_in_range (civil 50 5 10) \<and>
   (\<exists>ds. getCalendarDays False (Some (civil 50 5 10)) = Inr ds \<and> length ds = 42 \<and>
      sorted_wrt (\<lambda>a b. dayNumber a < dayNumber b) ds \<and>
      getDay (Some (hd ds)) = Some 0 \<and>
      filter (same_month (civil 50 5 10)) ds = map (civil 50 5) [1..30])"
proof -
  have h1: "neighbours_in_range (civil 2024 1 15)"
    by (simp add: neighbours_in_range_def calendar_eval)
  have h2: "neighbours_in_range (civil 50 5 10)"
    by (simp add: neighbours_in_range_def calendar_eval)
  have d1: "daysInMonth 2024 1 = 29" and d2: "daysInMonth 50 5 = 30"
    by (simp_all add: daysInMonth_def isLeapYear_def)
  from getCalendarDays_grid [OF h1, of True] obtain ds where
    "getCalendarDays True (Some (civil 2024 1 15)) = Inr ds" "length ds = 42"
    "sorted_wrt (\<lambda>a b. dayNumber a < dayNumber b) ds" "getDay (Some (hd ds)) = Some 0"
    "filter (same_month (civil 2024 1 15)) ds = map (civil 2024 1) [1..29]"
    by (auto simp: d1)
  then have a: "\<exists>ds. getCalendarDays True (Some (civil 2024 1 15)) = Inr ds \<and> length ds = 42 \<and>
      sorted_wrt (\<lambda>a b. dayNumber a < dayNumber b) ds \<and>
      getDay (Some (hd ds)) = Some 0 \<and>
      filter (same_month (civil 2024 1 15)) ds = map (civil 2024 1) [1..29]"
    by blast
  from getCalendarDays_grid [OF h2, of False] obtain es where
    "getCalendarDays False (Some (civil 50 5 10)) = Inr es" "length es = 42"
    "sorted_wrt (\<lambda>a b. dayNumber a < dayNumber b) es" "getDay (Some (hd es)) = Some 0"
    "filter (same_month (civil 50 5 10)) es = map (civil 50 5) [1..30]"
    by (auto simp: d2)
  then have b: "\<exists>ds. getCalendarDays False (Some (civil 50 5 10)) = Inr ds \<and> length ds = 42 \<and>
      sorted_wrt (\<lambda>a b. dayNumber a < dayNumber b) ds \<and>
      getDay (Some (hd ds)) = Some 0 \<and>
      filter (same_month (civil 50 5 10)) ds = map (civil 50 5) [1..30]"
    by blast
  from h1 a h2 b show ?thesis
    by (intro conjI)
qed

lemma getCalendarDays_at_range_end:
  "getCalendarDays throwing (Some (civil 275760 7 24)) =
     (if throwing then Inl (Error ''Invalid interval'')
      else Inr (map (civil 275760 6) [27..31] @ map (civil 275760 7) [1..31]))"
proof -
  let ?d = "civil 275760 7 24"
  have v: "valid_date ?d"
    by (simp add: calendar_eval)
  have lo: "inRange (civil (year ?d + (month ?d - 1) div 12) ((month ?d - 1) mod 12) 1)"
    by (simp add: calendar_eval)
  have hi: "inRange (civil (year ?d) (month ?d) (daysInMonth (year ?d) (month ?d)))"
    by (simp add: calendar_eval)
  have out: "\<not> inRange (civil (275760 + (7 + 1) div 12) ((7 + 1) mod 12)
      (daysInMonth (275760 + (7 + 1) div 12) ((7 + 1) mod 12)))"
    by (simp add: calendar_eval)
  have f: "(dayNumber (civil 275760 7 1) + 4) mod 7 = 5"
    by (simp add: calendar_eval)
  have dm: "daysInMonth 275760 7 = 31" "daysInMonth 275760 6 = 31"
    by (simp_all add: daysInMonth_def)
  have nx: "nextMonthDays_of throwing (Some (civil 275760 7 1)) 6 =
      (if throwing then Inl (Error ''Invalid interval'') else Inr [])"
    using out by (intro nextMonthDays_out_of_range) simp_all
  have "getCalendarDays throwing (Some ?d) =
     (case nextMonthDays_of throwing (Some (civil 275760 7 1)) (42 - 5 - 31) of
        Inl e \<Rightarrow> Inl e
      | Inr nextMonthDays \<Rightarrow>
          Inr (map (civil 275760 6) [31 - 5 + 1..31] @ map (civil 275760 7) [1..31]
            @ nextMonthDays))"
    using getCalendarDays_explicit [OF v lo hi, of throwing]
    by (simp add: f dm cong: sum.case_cong)
  then show ?thesis
    by (simp add: nx)
qed

theorem getCalendarDays_range_counterexample:
  "valid_date (civil 275760 7 24) \<and> inRange (civil 275760 7 24) \<and>
   getCalendarDays True (Some (civil 275760 7 24)) = Inl (Error ''Invalid interval'') \<and>
   getCalendarDays False (Some (civil 275760 7 24)) =
     Inr (days_from 5 (civil 275760 6 27) @ days_from 31 (civil 275760 7 1)) \<and>
   length (days_from 5 (civil 275760 6 27) @ days_from 31 (civil 275760 7 1)) = 36"
proof -
  have dm: "daysInMonth 275760 7 = 31" "daysInMonth 275760 6 = 31"
    by (simp_all add: daysInMonth_def)
  have p: "days_from 5 (civil 275760 6 27) = map (civil 275760 6) [27..31]"
    using days_from_within [of 5 275760 6 27] by (simp add: dm)
  have m: "days_from 31 (civil 275760 7 1) = map (civil 275760 7) [1..31]"
    using days_from_within [of 31 275760 7 1] by (simp add: dm)
  have v: "valid_date (civil 275760 7 24)" "inRange (civil 275760 7 24)"
    by (simp_all add: calendar_eval)
  show ?thesis
    unfolding p m using v by (simp add: getCalendarDays_at_range_end)
qed

section \<open>Group membership through the HTTP handlers\<close>

lemma inv_handle: "store_inv s \<Longrightarrow> store_inv (handle r s)"
proof (cases r)
  case (PutUser c b)
  assume "store_inv s" then show ?thesis using PutUser
    by (auto simp: put_api_user_def split: option.splits sum.splits dest: inv_updateUser)
next
  case (PostMemory now c b)
  assume "store_inv s" then show ?thesis using PostMemory
    by (auto simp: post_api_memories_def inv_createMemory split: option.splits)
next
  case (PutMemory c i b)
  assume "store_inv s" then show ?thesis using PutMemory
    by (auto simp: put_api_memories_id_def split: option.splits sum.splits dest: inv_updateMemory)
next
  case (DeleteMemoryReq c i)
  assume "store_inv s" then show ?thesis using DeleteMemoryReq
    by (auto simp: delete_api_memories_id_def inv_deleteMemory split: option.splits)
next
  case (PostFriendRequest now c f)
  assume "store_inv s" then show ?thesis using PostFriendRequest
    by (auto simp: post_api_friends_request_def split: option.splits sum.splits
        dest: inv_createFriendRequest)
next
  case (PostFriendAccept now c i)
  assume "store_inv s" then show ?thesis using PostFriendAccept
    by (auto simp: post_api_friends_accept_def split: option.splits sum.splits
        dest: inv_acceptFriendRequest)
next
  case (PostFriendReject c i)
  assume "store_inv s" then show ?thesis using PostFriendReject
    by (auto simp: post_api_friends_reject_def split: option.splits sum.splits
        dest: inv_rejectFriendRequest)
next
  case (DeleteFriend c f)
  assume "store_inv s" then show ?thesis using DeleteFriend
    by (auto simp: delete_api_friends_def inv_removeFriend split: option.splits)
next
  case (PostGroup now c b)
  assume "store_inv s" then show ?thesis using PostGroup
    by (auto simp: post_api_groups_def Let_def inv_createGroup inv_addGroupMember
        split: option.splits prod.splits)
      (metis fst_conv inv_createGroup inv_addGroupMember)
next
  case (PutGroup c i b)
  assume "store_inv s" then show ?thesis using PutGroup
    by (auto simp: put_api_groups_id_def split: option.splits sum.splits dest: inv_updateGroup)
next
  case (PostGroupJoin now c g)
  assume "store_inv s" then show ?thesis using PostGroupJoin
    by (auto simp: post_api_groups_join_def inv_addGroupMember split: option.splits)
next
  case (PostGroupLeave c g)
  assume "store_inv s" then show ?thesis using PostGroupLeave
    by (auto simp: post_api_groups_leave_def inv_removeGroupMember split: option.splits)
next
  case (DeleteGroupMemberReq c g u)
  assume "store_inv s" then show ?thesis using DeleteGroupMemberReq
    by (auto simp: delete_api_groups_members_def inv_removeGroupMember split: option.splits)
next
  case (PutNotificationRead c i)
  assume "store_inv s" then show ?thesis using PutNotificationRead
    by (auto simp: put_api_notifications_read_def split: option.splits sum.splits
        dest: inv_markNotificationAsRead)
next
  case (PostComment now c m b)
  assume "store_inv s" then show ?thesis using PostComment
    by (auto simp: post_api_memories_comments_def inv_createComment split: option.splits)
next
  case (DeleteCommentReq c i)
  assume "store_inv s" then show ?thesis using DeleteCommentReq
    by (auto simp: delete_api_comments_id_def inv_deleteComment split: option.splits)
next
  case (AuthCreateUser now d)
  assume "store_inv s" then show ?thesis using AuthCreateUser
    by (simp add: inv_createUser)
qed

lemma members_inv_frame:
  assumes "members_inv s" and "store_inv s'"
    and "groupMembers s' = groupMembers s" and "groupIdCounter s' = groupIdCounter s"
  shows "members_inv s'"
  using assms by (simp add: members_inv_def member_pairs_def)

lemma members_inv_add:
  assumes "members_inv s" and "store_inv s'"
    and "groupMembers s' = groupMembers s @ [(k, mb)]"
    and "groupIdCounter s \<le> groupIdCounter s'"
    and "member_groupId mb < groupIdCounter s'"
    and "(member_groupId mb, member_userId mb) \<notin> set (member_pairs s)"
  shows "members_inv s'"
proof -
  from assms(1) have d: "distinct (member_pairs s)"
    and l: "list_all (\<lambda>m. member_groupId m < groupIdCounter s) (js_values (groupMembers s))"
    by (simp_all add: members_inv_def)
  have p: "member_pairs s' = member_pairs s @ [(member_groupId mb, member_userId mb)]"
    by (simp add: member_pairs_def js_values_def assms(3))
  have "distinct (member_pairs s')"
    using d assms(6) by (simp add: p)
  moreover have "list_all (\<lambda>m. member_groupId m < groupIdCounter s') (js_values (groupMembers s'))"
    using l assms(4,5) by (auto simp: list_all_iff js_values_def assms(3))
  ultimately show ?thesis
    using assms(2) by (simp add: members_inv_def)
qed

lemma members_inv_removeGroupMember:
  assumes "members_inv s"
  shows "members_inv (removeGroupMember s g u)"
proof (cases "getGroupMembership s g u")
  case None
  with assms show ?thesis by (simp add: removeGroupMember_def)
next
  case (Some mb)
  let ?P = "\<lambda>p::int \<times> GroupMember. fst p \<noteq> member_id mb"
  have gm: "groupMembers (removeGroupMember s g u) = filter ?P (groupMembers s)"
    and gc: "groupIdCounter (removeGroupMember s g u) = groupIdCounter s"
    using Some by (simp_all add: removeGroupMember_def js_delete_def)
  from assms have d: "distinct (member_pairs s)"
    and l: "list_all (\<lambda>m. member_groupId m < groupIdCounter s) (js_values (groupMembers s))"
    and i: "store_inv s"
    by (simp_all add: members_inv_def)
  have "member_pairs (removeGroupMember s g u) =
      map (\<lambda>p. (member_groupId (snd p), member_userId (snd p))) (filter ?P (groupMembers s))"
    by (simp add: member_pairs_def js_values_def gm comp_def)
  moreover have "distinct (map (\<lambda>p. (member_groupId (snd p), member_userId (snd p))) (groupMembers s))"
    using d by (simp add: member_pairs_def js_values_def comp_def)
  ultimately have "distinct (member_pairs (removeGroupMember s g u))"
    by (simp add: distinct_map_filter)
  moreover have "list_all (\<lambda>m. member_groupId m < groupIdCounter (removeGroupMember s g u))
      (js_values (groupMembers (removeGroupMember s g u)))"
    using l by (auto simp: list_all_iff js_values_def gm gc)
  moreover have "store_inv (removeGroupMember s g u)"
    using i by (rule inv_removeGroupMember)
  ultimately show ?thesis by (simp add: members_inv_def)
qed

lemma members_inv_post_api_groups:
  assumes "members_inv s"
  shows "members_inv (fst (post_api_groups s now c b))"
proof (cases "c = None \<or> b = None")
  case True
  with assms show ?thesis
    by (auto simp: post_api_groups_def split: option.splits)
next
  case False
  then obtain uid d where c: "c = Some uid" and b: "b = Some d" by auto
  let ?mb = "\<lparr> member_id = groupMemberIdCounter s, member_groupId = groupIdCounter s,
     member_userId = uid, member_role = ''admin'', member_joinedAt = now \<rparr>"
  let ?s' = "fst (post_api_groups s now c b)"
  from assms have i: "store_inv s"
    and l: "list_all (\<lambda>m. member_groupId m < groupIdCounter s) (js_values (groupMembers s))"
    by (simp_all add: members_inv_def)
  from i have "groupMemberIdCounter s \<notin> set (js_keys (groupMembers s))"
    by (auto simp: store_inv_def dest: keys_below_fresh)
  then have gm: "groupMembers ?s' = groupMembers s @ [(groupMemberIdCounter s, ?mb)]"
    by (simp add: c b post_api_groups_def createGroup_def addGroupMember_def Let_def js_set_fresh)
  have gc: "groupIdCounter ?s' = groupIdCounter s + 1"
    by (simp add: c b post_api_groups_def createGroup_def addGroupMember_def Let_def)
  have "store_inv (handle (PostGroup now c b) s)"
    using i by (rule inv_handle)
  then have i': "store_inv ?s'" by simp
  have fresh: "(member_groupId ?mb, member_userId ?mb) \<notin> set (member_pairs s)"
    using l by (auto simp: member_pairs_def list_all_iff)
  show ?thesis
    by (rule members_inv_add [OF assms i' gm _ _ fresh]) (simp_all add: gc)
qed

lemma members_inv_post_api_groups_join:
  assumes "members_inv s"
  shows "members_inv (fst (post_api_groups_join s now c g))"
proof (cases "\<exists>uid grp. c = Some uid \<and> getGroup s g = Some grp \<and> getGroupMembership s g uid = None")
  case False
  then have "fst (post_api_groups_join s now c g) = s"
    by (auto simp: post_api_groups_join_def split: option.splits)
  with assms show ?thesis by simp
next
  case True
  then obtain uid grp where c: "c = Some uid" and gg: "getGroup s g = Some grp"
    and nm: "getGroupMembership s g uid = None" by blast
  let ?mb = "\<lparr> member_id = groupMemberIdCounter s, member_groupId = g,
     member_userId = uid, member_role = ''member'', member_joinedAt = now \<rparr>"
  let ?s' = "fst (post_api_groups_join s now c g)"
  from assms have i: "store_inv s" by (simp add: members_inv_def)
  from i have "groupMemberIdCounter s \<notin> set (js_keys (groupMembers s))"
    by (auto simp: store_inv_def dest: keys_below_fresh)
  then have gm: "groupMembers ?s' = groupMembers s @ [(groupMemberIdCounter s, ?mb)]"
    by (simp add: c gg nm post_api_groups_join_def addGroupMember_def Let_def js_set_fresh)
  have gc: "groupIdCounter ?s' = groupIdCounter s"
    by (simp add: c gg nm post_api_groups_join_def addGroupMember_def Let_def)
  have "store_inv (handle (PostGroupJoin now c g) s)"
    using i by (rule inv_handle)
  then have i': "store_inv ?s'" by simp
  from gg have "g \<in> set (js_keys (groups s))"
    by (auto simp: getGroup_def dest: js_get_Some_key)
  moreover from i have "list_all (\<lambda>k. k < groupIdCounter s) (js_keys (groups s))"
    by (simp add: store_inv_def keys_below_def)
  ultimately have lt: "g < groupIdCounter s"
    by (auto simp: list_all_iff)
  from nm have fresh: "(member_groupId ?mb, member_userId ?mb) \<notin> set (member_pairs s)"
    by (auto simp: getGroupMembership_def find_None_iff member_pairs_def)
  show ?thesis
    by (rule members_inv_add [OF assms i' gm _ _ fresh]) (simp_all add: gc lt)
qed

lemma members_inv_handle:
  assumes "members_inv s"
  shows "members_inv (handle r s)"
proof -
  from assms have i: "store_inv s" by (simp add: members_inv_def)
  then have i': "store_inv (handle r s)" by (rule inv_handle)
  show ?thesis
  proof (cases r)
    case (PostGroup now c b)
    with assms show ?thesis by (simp add: members_inv_post_api_groups)
  next
    case (PostGroupJoin now c g)
    with assms show ?thesis by (simp add: members_inv_post_api_groups_join)
  next
    case (PostGroupLeave c g)
    with assms show ?thesis
      by (auto simp: post_api_groups_leave_def members_inv_removeGroupMember split: option.splits)
  next
    case (DeleteGroupMemberReq c g u)
    with assms show ?thesis
      by (auto simp: delete_api_groups_members_def members_inv_removeGroupMember
          split: option.splits)
  next
    case (PutUser c b)
    show ?thesis
      by (rule members_inv_frame [OF assms i'])
        (auto simp: PutUser put_api_user_def updateUser_def Let_def split: option.splits)
  next
    case (PostMemory now c b)
    show ?thesis
      by (rule members_inv_frame [OF assms i'])
        (auto simp: PostMemory post_api_memories_def createMemory_def Let_def split: option.splits)
  next
    case (PutMemory c i b)
    show ?thesis
      by (rule members_inv_frame [OF assms i'])
        (auto simp: PutMemory put_api_memories_id_def updateMemory_def Let_def
          split: option.splits)
  next
    case (DeleteMemoryReq c i)
    show ?thesis
      by (rule members_inv_frame [OF assms i'])
        (auto simp: DeleteMemoryReq delete_api_memories_id_def deleteMemory_def Let_def
          split: option.splits)
  next
    case (PostFriendRequest now c f)
    show ?thesis
      by (rule members_inv_frame [OF assms i'])
        (auto simp: PostFriendRequest post_api_friends_request_def createFriendRequest_def
          createNotification_def Let_def split: option.splits)
  next
    case (PostFriendAccept now c i)
    show ?thesis
      by (rule members_inv_frame [OF assms i'])
        (auto simp: PostFriendAccept post_api_friends_accept_def acceptFriendRequest_def
          createNotification_def Let_def split: option.splits)
  next
    case (PostFriendReject c i)
    show ?thesis
      by (rule members_inv_frame [OF assms i'])
        (auto simp: PostFriendReject post_api_friends_reject_def rejectFriendRequest_def
          Let_def split: option.splits)
  next
    case (DeleteFriend c f)
    show ?thesis
      by (rule members_inv_frame [OF assms i'])
        (auto simp: DeleteFriend delete_api_friends_def removeFriend_def Let_def
          split: option.splits)
  next
    case (PutGroup c i b)
    show ?thesis
      by (rule members_inv_frame [OF assms i'])
        (auto simp: PutGroup put_api_groups_id_def updateGroup_def Let_def split: option.splits)
  next
    case (PutNotificationRead c i)
    show ?thesis
      by (rule members_inv_frame [OF assms i'])
        (auto simp: PutNotificationRead put_api_notifications_read_def
          markNotificationAsRead_def Let_def split: option.splits)
  next
    case (PostComment now c m b)
    show ?thesis
      by (rule members_inv_frame [OF assms i'])
        (auto simp: PostComment post_api_memories_comments_def createComment_def
          createNotification_def Let_def split: option.splits)
  next
    case (DeleteCommentReq c i)
    show ?thesis
      by (rule members_inv_frame [OF assms i'])
        (auto simp: DeleteCommentReq delete_api_comments_id_def deleteComment_def
          split: option.splits)
  next
    case (AuthCreateUser now d)
    show ?thesis
      by (rule members_inv_frame [OF assms i'])
        (auto simp: AuthCreateUser createUser_def Let_def)
  qed
qed

lemma members_inv_new: "members_inv newMemStorage"
  by (simp add: members_inv_def inv_newMemStorage member_pairs_def js_values_def)
    (simp add: newMemStorage_def)

lemma served_members_inv: "served s \<Longrightarrow> members_inv s"
  by (induction rule: served.induct) (simp_all add: members_inv_new members_inv_handle)

lemma served_inv: "served s \<Longrightarrow> store_inv s"
  using served_members_inv by (simp add: members_inv_def)

text \<open>
  Claim C8, as the code behaves. In every store reached through the HTTP handlers there is at
  most one group member row per (group, user) pair: \<^verbatim>\<open>POST /api/groups/:id/join\<close> leaves
  the store unchanged (404 or 400) when the caller already has a membership in the group, and
  neither it nor \<^verbatim>\<open>POST /api/groups\<close> produces a second row for a pair. The storage method
  \<^verbatim>\<open>addGroupMember\<close> itself makes no check.
\<close>

theorem served_membership_unique:
  assumes "served s"
  shows "distinct (member_pairs s) \<and>
     (getGroupMembership s g u \<noteq> None \<longrightarrow>
        post_api_groups_join s now (Some u) g = (s, Status 404) \<or>
        post_api_groups_join s now (Some u) g = (s, Status 400)) \<and>
     distinct (member_pairs (fst (post_api_groups_join s now c g))) \<and>
     distinct (member_pairs (fst (post_api_groups s now c b)))"
proof -
  from assms have m: "members_inv s" by (rule served_members_inv)
  have "distinct (member_pairs (fst (post_api_groups_join s now c g)))"
    using members_inv_post_api_groups_join [OF m] by (simp add: members_inv_def)
  moreover have "distinct (member_pairs (fst (post_api_groups s now c b)))"
    using members_inv_post_api_groups [OF m] by (simp add: members_inv_def)
  moreover have "getGroupMembership s g u \<noteq> None \<longrightarrow>
        post_api_groups_join s now (Some u) g = (s, Status 404) \<or>
        post_api_groups_join s now (Some u) g = (s, Status 400)"
    by (auto simp: post_api_groups_join_def split: option.splits)
  ultimately show ?thesis
    using m by (simp add: members_inv_def)
qed

theorem served_membership_unique_witness:
  "served example_served \<and> member_pairs example_served = [(1, 7)] \<and>
   distinct (member_pairs example_served) \<and>
   post_api_groups_join example_served 9 (Some 7) 1 = (example_served, Status 400) \<and>
   distinct (member_pairs (fst (post_api_groups_join example_served 9 (Some 8) 1)))"
proof -
  have h: "served example_served"
    unfolding example_served_def by (rule served_request [OF served_new])
  have p: "member_pairs example_served = [(1, 7)]"
    by code_simp
  have j: "post_api_groups_join example_served 9 (Some 7) 1 = (example_served, Status 400)"
    by code_simp
  from served_membership_unique [OF h, of 1 7 9 "Some 8" None] h p j show ?thesis
    by simp
qed

theorem addGroupMember_duplicate_counterexample:
  "member_pairs (run [AddGroupMember 1 example_member, AddGroupMember 2 example_member]
     newMemStorage) = [(1, 1), (1, 1)]"
  by code_simp

end
